theory Spec2Isabelle
  imports Main "HOL-Library.Sublist" "HOL-Library.Product_Lexorder" "HOL-Library.Multiset"
begin

section \<open>Python values shared by both modules\<close>

text \<open>
  A Python \<open>str\<close> is modelled as a \<open>string\<close>: a list of code points below 256
  (ASCII and Latin-1). Code points from 256 on are outside the model. The character
  predicates below are those of Python 3 on this range: \<open>str.isspace\<close> (which is also
  the regular expression class \<open>\s\<close>), the class \<open>\d\<close>, the class \<open>\w\<close>, and the
  simple case mappings used by \<open>str.lower\<close> and by \<open>re.IGNORECASE\<close>.
\<close>

definition code :: "char \<Rightarrow> nat" where
  "code c = of_char c"

definition is_space :: "char \<Rightarrow> bool" where
  "is_space c = (let n = code c in
     (9 \<le> n \<and> n \<le> 13) \<or> (28 \<le> n \<and> n \<le> 32) \<or> n = 133 \<or> n = 160)"

definition is_digit :: "char \<Rightarrow> bool" where
  "is_digit c = (let n = code c in 48 \<le> n \<and> n \<le> 57)"

definition is_word :: "char \<Rightarrow> bool" where
  "is_word c = (let n = code c in
     (48 \<le> n \<and> n \<le> 57) \<or> (65 \<le> n \<and> n \<le> 90) \<or> n = 95 \<or> (97 \<le> n \<and> n \<le> 122)
     \<or> n = 170 \<or> n = 178 \<or> n = 179 \<or> n = 181 \<or> n = 185 \<or> n = 186
     \<or> (188 \<le> n \<and> n \<le> 190) \<or> (192 \<le> n \<and> n \<le> 214) \<or> (216 \<le> n \<and> n \<le> 246)
     \<or> (248 \<le> n \<and> n \<le> 255))"

definition lower_char :: "char \<Rightarrow> char" where
  "lower_char c = (let n = code c in
     if (65 \<le> n \<and> n \<le> 90) \<or> (192 \<le> n \<and> n \<le> 222 \<and> n \<noteq> 215)
     then char_of (n + 32) else c)"

text \<open>
  The upper-case mapping: the two letters whose upper case lies beyond code point 255
  (\<open>0xB5\<close> and \<open>0xFF\<close>) stay as they are; no character class of this program
  contains their images.
\<close>

definition upper_char :: "char \<Rightarrow> char" where
  "upper_char c = (let n = code c in
     if (97 \<le> n \<and> n \<le> 122) \<or> (224 \<le> n \<and> n \<le> 254 \<and> n \<noteq> 247)
     then char_of (n - 32) else c)"

definition lower :: "string \<Rightarrow> string" where
  "lower s = map lower_char s"

definition strip :: "string \<Rightarrow> string" where
  "strip s = rev (dropWhile is_space (rev (dropWhile is_space s)))"

text \<open>
  Exceptions are values. Every constructor is a subclass of Python's \<open>Exception\<close>;
  the argument is the text \<open>str(e)\<close> gives.
\<close>

datatype exn =
    NameError string
  | ValueError string
  | IndexError string
  | KeyError string
  | AttributeError string
  | UnicodeEncodeError string
  | APIError string

fun str_exn :: "exn \<Rightarrow> string" where
  "str_exn (NameError m) = m"
| "str_exn (ValueError m) = m"
| "str_exn (IndexError m) = m"
| "str_exn (KeyError m) = m"
| "str_exn (AttributeError m) = m"
| "str_exn (UnicodeEncodeError m) = m"
| "str_exn (APIError m) = m"

text \<open>
  \<open>str.join\<close>, the character of a digit below sixteen, a number in decimal
  (\<open>str(n)\<close>), and a number in decimal zero-padded to a width (as \<open>%04d\<close>).
\<close>

fun join :: "string \<Rightarrow> string list \<Rightarrow> string" where
  "join sep [] = []"
| "join sep [x] = x"
| "join sep (x # y # ys) = x @ sep @ join sep (y # ys)"

definition digit_char :: "nat \<Rightarrow> char" where
  "digit_char n = ''0123456789abcdef'' ! n"

fun str_nat :: "nat \<Rightarrow> string" where
  "str_nat n =
     (if n < 10 then [digit_char n]
      else str_nat (n div 10) @ [digit_char (n mod 10)])"

declare str_nat.simps [simp del]

fun zero_padded :: "nat \<Rightarrow> nat \<Rightarrow> string" where
  "zero_padded 0 n = []"
| "zero_padded (Suc w) n = zero_padded w (n div 10) @ [char_of (48 + n mod 10)]"

text \<open>
  A \<open>datetime\<close> as (year, month, day): the formats the extractor parses set no time of
  day, so every \<open>datetime\<close> of the program is at midnight, and Python's order on them
  is the lexicographic order of the triple. \<open>datetime.min\<close> is 1 January of year 1.
\<close>

type_synonym datetime = "nat \<times> nat \<times> nat"

definition datetime_min :: datetime where
  "datetime_min = (1, 1, 1)"

definition str_datetime :: "datetime \<Rightarrow> string" where
  "str_datetime d =
     (case d of (y, m, dd) \<Rightarrow>
        zero_padded 4 y @ ''-'' @ zero_padded 2 m @ ''-'' @ zero_padded 2 dd @ '' 00:00:00'')"

text \<open>
  A timeline event is the dictionary \<open>{"date", "content", "raw_text"}\<close> built by
  \<open>_extract_timeline_events\<close>; its date is a \<open>datetime\<close>, or the date string as it
  stood in the text when no format parsed it.
\<close>

datatype event_date = Parsed datetime | RawToken string

record event =
  ev_date :: event_date
  ev_content :: string
  ev_raw_text :: string

fun str_event_date :: "event_date \<Rightarrow> string" where
  "str_event_date (Parsed d) = str_datetime d"
| "str_event_date (RawToken s) = s"

text \<open>
  The case dictionary of \<open>extract_all\<close>. The classifier reads it with
  \<open>case_data.get(key, default)\<close>, so a key may be absent: \<open>None\<close>.
\<close>

record case_data =
  case_name :: "string option"
  timeline_events :: "event list option"
  metadata :: "(string \<times> string) list option"
  raw_text :: "string option"
  pdf_filename :: "string option"

definition get_or :: "'a option \<Rightarrow> 'a \<Rightarrow> 'a" where
  "get_or v d = (case v of None \<Rightarrow> d | Some x \<Rightarrow> x)"

section \<open>The part of Python's \<open>re\<close> that the program uses\<close>

text \<open>
  A backtracking matcher as a list of successes: \<open>rmatch\<close> returns every way the
  pattern can match at the cursor, in the order in which Python's engine tries them, so
  the head of the list is the match Python reports. The cursor is the character before
  the position (for \<open>\b\<close>) and the text from the position on.

  Repetition is over single character classes only (\<open>\s*\<close>, \<open>.+?\<close>, \<open>\d{1,2}\<close>,
  \<open>[A-Z\s]+\<close>): that is every repetition in the source but the optional groups, which
  are \<open>Opt\<close>. \<open>AnyChar\<close> is \<open>.\<close> under \<open>re.DOTALL\<close>, which every use of \<open>.\<close> in
  the source sets. \<open>Eos\<close> is \<open>$\<close> without \<open>re.MULTILINE\<close>, \<open>EndZ\<close> is \<open>\Z\<close>.
\<close>

datatype cset =
    AnyChar
  | Digit
  | Space
  | Chars string
  | Range char char
  | Union cset cset

datatype rx =
    Eps
  | Lit char
  | Cls cset
  | Rep cset nat "nat option" bool
  | Seq rx rx
  | Alt rx rx
  | Opt rx
  | Grp nat rx
  | Ahead rx
  | WordB
  | Eos
  | EndZ

type_synonym cursor = "char option \<times> string"
type_synonym groups = "(nat \<times> string) list"

fun raw_in_cset :: "cset \<Rightarrow> char \<Rightarrow> bool" where
  "raw_in_cset AnyChar c = True"
| "raw_in_cset Digit c = is_digit c"
| "raw_in_cset Space c = is_space c"
| "raw_in_cset (Chars s) c = List.member s c"
| "raw_in_cset (Range a b) c = (code a \<le> code c \<and> code c \<le> code b)"
| "raw_in_cset (Union k l) c = (raw_in_cset k c \<or> raw_in_cset l c)"

text \<open>Under \<open>re.IGNORECASE\<close> a class holds a character when it holds its lower or its
  upper case; a literal matches when the lower cases agree.\<close>

definition in_cset :: "bool \<Rightarrow> cset \<Rightarrow> char \<Rightarrow> bool" where
  "in_cset ic k c =
     (if ic then raw_in_cset k (lower_char c) \<or> raw_in_cset k (upper_char c)
      else raw_in_cset k c)"

definition lit_eq :: "bool \<Rightarrow> char \<Rightarrow> char \<Rightarrow> bool" where
  "lit_eq ic x c = (if ic then lower_char x = lower_char c else x = c)"

text \<open>The cursors after 0, 1, 2, ... characters of a class, at most \<open>hi\<close> of them.\<close>

fun rep_cursors :: "(char \<Rightarrow> bool) \<Rightarrow> nat option \<Rightarrow> char option \<Rightarrow> string \<Rightarrow> cursor list" where
  "rep_cursors P hi p [] = [(p, [])]"
| "rep_cursors P hi p (x # xs) =
     (p, x # xs) #
     (if P x \<and> hi \<noteq> Some 0
      then rep_cursors P (map_option (\<lambda>h. h - 1) hi) (Some x) xs
      else [])"

definition word_before :: "char option \<Rightarrow> bool" where
  "word_before p = (case p of None \<Rightarrow> False | Some c \<Rightarrow> is_word c)"

definition word_after :: "string \<Rightarrow> bool" where
  "word_after s = (case s of [] \<Rightarrow> False | c # _ \<Rightarrow> is_word c)"

fun rmatch :: "bool \<Rightarrow> rx \<Rightarrow> cursor \<Rightarrow> groups \<Rightarrow> (cursor \<times> groups) list" where
  "rmatch ic Eps cur g = [(cur, g)]"
| "rmatch ic (Lit c) cur g =
     (case snd cur of
        [] \<Rightarrow> []
      | x # xs \<Rightarrow> if lit_eq ic x c then [((Some x, xs), g)] else [])"
| "rmatch ic (Cls k) cur g =
     (case snd cur of
        [] \<Rightarrow> []
      | x # xs \<Rightarrow> if in_cset ic k x then [((Some x, xs), g)] else [])"
| "rmatch ic (Rep k lo hi greedy) cur g =
     (let ok = drop lo (rep_cursors (in_cset ic k) hi (fst cur) (snd cur))
      in map (\<lambda>c. (c, g)) (if greedy then rev ok else ok))"
| "rmatch ic (Seq a b) cur g =
     concat (map (\<lambda>r. rmatch ic b (fst r) (snd r)) (rmatch ic a cur g))"
| "rmatch ic (Alt a b) cur g = rmatch ic a cur g @ rmatch ic b cur g"
| "rmatch ic (Opt a) cur g = rmatch ic a cur g @ [(cur, g)]"
| "rmatch ic (Grp n a) cur g =
     map (\<lambda>r. (fst r, (n, take (length (snd cur) - length (snd (fst r))) (snd cur)) # snd r))
       (rmatch ic a cur g)"
| "rmatch ic (Ahead a) cur g = (if rmatch ic a cur g = [] then [] else [(cur, g)])"
| "rmatch ic WordB cur g =
     (if word_before (fst cur) \<noteq> word_after (snd cur) then [(cur, g)] else [])"
| "rmatch ic Eos cur g =
     (if snd cur = [] \<or> snd cur = [CHR 0x0A] then [(cur, g)] else [])"
| "rmatch ic EndZ cur g = (if snd cur = [] then [(cur, g)] else [])"

text \<open>Pattern builders: a literal word, a sequence, an alternation.\<close>

definition lits :: "string \<Rightarrow> rx" where
  "lits s = foldr (\<lambda>c r. Seq (Lit c) r) s Eps"

definition seqs :: "rx list \<Rightarrow> rx" where
  "seqs rs = foldr Seq rs Eps"

fun alts :: "rx list \<Rightarrow> rx" where
  "alts [] = Eps"
| "alts [r] = r"
| "alts (r # rs) = Alt r (alts rs)"

text \<open>
  A match object: the text from the start of the match on, the cursor at its end, and
  the groups. \<open>group m n\<close> is \<open>m.group(n)\<close>, \<open>None\<close> for a group that took no part.
\<close>

record match =
  m_start :: string
  m_end :: cursor
  m_groups :: groups

definition group :: "match \<Rightarrow> nat \<Rightarrow> string option" where
  "group m n = map_of (m_groups m) n"

text \<open>\<open>re.search\<close>: the first position, from the left, where the pattern matches.\<close>

fun search_from :: "bool \<Rightarrow> rx \<Rightarrow> char option \<Rightarrow> string \<Rightarrow> match option" where
  "search_from ic r p [] =
     (case rmatch ic r (p, []) [] of
        [] \<Rightarrow> None
      | res # _ \<Rightarrow> Some \<lparr>m_start = [], m_end = fst res, m_groups = snd res\<rparr>)"
| "search_from ic r p (x # xs) =
     (case rmatch ic r (p, x # xs) [] of
        [] \<Rightarrow> search_from ic r (Some x) xs
      | res # _ \<Rightarrow> Some \<lparr>m_start = x # xs, m_end = fst res, m_groups = snd res\<rparr>)"

definition re_search :: "bool \<Rightarrow> rx \<Rightarrow> string \<Rightarrow> match option" where
  "re_search ic r s = search_from ic r None s"

section \<open>behavior_classifier.py: the classifier\<close>

text \<open>
  A constructed \<open>BehaviorClassifier\<close>: the SOP text read by \<open>__init__\<close>, and the
  Anthropic client. \<open>client n prompt\<close> is what the call of
  \<open>self.client.messages.create\<close> made for the \<open>n\<close>-th case of a batch does with
  that prompt: it raises, or it returns the texts of the reply's content blocks. The
  external service may answer the same prompt differently each time, hence the number.
\<close>

record classifier =
  sop_content :: string
  client :: "nat \<Rightarrow> string \<Rightarrow> exn + string list"

text \<open>The result dictionary of \<open>analyze_client\<close> and of the error branch.\<close>

record analysis =
  r_case_name :: string
  r_pdf_filename :: string
  classification :: string
  notice_sent :: string
  firm_fault :: string
  firm_fault_explanation :: string
  current_status :: string
  recommendation :: string
  reasoning :: string
  key_evidence :: string
  full_analysis :: string

text \<open>The fixed text of the prompt (the f-string of \<open>_build_analysis_prompt\<close>).\<close>

definition prompt_head :: string where
  \<open>prompt_head =
     ''You are analyzing client behavior for a law firm to determine if continued representation is appropriate.\<newline>'' @
     ''\<newline>'' @
     ''## REFERENCE DOCUMENT\<newline>'' @
     ''Below is the firm'' @ [CHR 0x27] @ ''s SOP that defines client classifications:\<newline>'' @
     ''\<newline>''\<close>

definition prompt_case :: string where
  \<open>prompt_case =
     ''  # Limit SOP to avoid token limits\<newline>'' @
     ''\<newline>'' @
     ''## CLIENT CASE DATA\<newline>'' @
     ''\<newline>'' @
     ''**Case Name:** ''\<close>

definition prompt_pdf :: string where
  \<open>prompt_pdf =
     ''\<newline>'' @
     ''**PDF File:** ''\<close>

definition prompt_metadata :: string where
  \<open>prompt_metadata =
     ''\<newline>'' @
     ''\<newline>'' @
     ''**Metadata:**\<newline>''\<close>

definition prompt_timeline :: string where
  \<open>prompt_timeline =
     ''\<newline>'' @
     ''\<newline>'' @
     ''**Timeline & Activities (Key Events):**\<newline>''\<close>

definition prompt_task :: string where
  \<open>prompt_task =
     ''\<newline>'' @
     ''\<newline>'' @
     ''---\<newline>'' @
     ''\<newline>'' @
     ''## YOUR TASK\<newline>'' @
     ''\<newline>'' @
     ''Analyze this case and provide a structured assessment following the SOP definitions.\<newline>'' @
     ''\<newline>'' @
     ''**Classification Criteria:**\<newline>'' @
     ''- **Normal Client:** Pays on time, communicates respectfully, stays within scope\<newline>'' @
     ''- **Special Client:** Difficult but respectful - excessive contact, dissatisfaction, scope expansion attempts, BUT NO abuse\<newline>'' @
     ''- **Excessively Special (E-Special):** Shocks the conscience - yelling, profanity, threats (lawsuit, State Bar, physical), accusations of fraud, hostile conduct, review blackmail\<newline>'' @
     ''- **Delinquent:** Any past-due balance\<newline>'' @
     ''\<newline>'' @
     ''**Key Rule:** E-Special behavior is NEVER excused by payment status or firm error. Staff protection is paramount.\<newline>'' @
     ''\<newline>'' @
     ''## OUTPUT FORMAT (JSON-like structure)\<newline>'' @
     ''\<newline>'' @
     ''Provide your analysis in this exact format:\<newline>'' @
     ''\<newline>'' @
     [CHR 0x60] @ [CHR 0x60] @ [CHR 0x60] @ ''\<newline>'' @
     ''CLASSIFICATION: [Normal / Special / E-Special / Delinquent / Delinquent + Special]\<newline>'' @
     ''\<newline>'' @
     ''NOTICE SENT: [Notice to Cure / Notice of Termination / None sent / Cannot determine from records]\<newline>'' @
     ''\<newline>'' @
     ''FIRM FAULT: [Yes / No / Unclear from records]\<newline>'' @
     ''\<newline>'' @
     ''FIRM FAULT EXPLANATION: [If Yes: brief explanation of what firm did wrong. If No: '' @ [CHR 0x22] @ ''No firm fault identified.'' @ [CHR 0x22] @ '' If Unclear: explain what info is missing]\<newline>'' @
     ''\<newline>'' @
     ''CURRENT STATUS: [Active / Pending Cure / Terminated / Recommended for Termination / Cannot determine]\<newline>'' @
     ''\<newline>'' @
     ''RECOMMENDATION: [Continue representation / Send Notice to Cure / Proceed with Termination / Executive Review Required]\<newline>'' @
     ''\<newline>'' @
     ''REASONING: [2-3 sentences explaining your classification and recommendation based on specific evidence from the timeline]\<newline>'' @
     ''\<newline>'' @
     ''KEY EVIDENCE: [Quote 1-3 specific timeline entries that support your classification]\<newline>'' @
     [CHR 0x60] @ [CHR 0x60] @ [CHR 0x60] @ ''\<newline>'' @
     ''\<newline>'' @
     ''**Important Guidelines:**\<newline>'' @
     ''1. Be conservative - only classify as E-Special if behavior truly '' @ [CHR 0x22] @ ''shocks the conscience'' @ [CHR 0x22] @ '' per SOP definition\<newline>'' @
     ''2. Special clients are SALVAGEABLE - recommend cure unless abuse is present\<newline>'' @
     ''3. If payment status is unclear, note it but focus on behavior\<newline>'' @
     ''4. Look for patterns, not isolated incidents\<newline>'' @
     ''5. If records are incomplete, say '' @ [CHR 0x22] @ ''Cannot determine from provided records'' @ [CHR 0x22] @ '' rather than speculating\<newline>'' @
     ''\<newline>'' @
     ''Analyze now:''\<close>

definition format_metadata :: "(string \<times> string) list \<Rightarrow> string" where
  "format_metadata md =
     (if md = [] then ''No metadata extracted''
      else join ''\<newline>'' (map (\<lambda>kv. ''  - '' @ fst kv @ '': '' @ snd kv) md))"

definition build_analysis_prompt :: "classifier \<Rightarrow> case_data \<Rightarrow> string" where
  "build_analysis_prompt self cd =
     (let timeline_summary =
            join ''\<newline>\<newline>''
              (map (\<lambda>e. ''Date: '' @ str_event_date (ev_date e) @ ''\<newline>''
                           @ take 300 (ev_raw_text e))
                 (take 15 (get_or (timeline_events cd) [])))
      in prompt_head @ take 15000 (sop_content self)
         @ prompt_case @ get_or (case_name cd) ''Unknown''
         @ prompt_pdf @ get_or (pdf_filename cd) ''Unknown''
         @ prompt_metadata @ format_metadata (get_or (metadata cd) [])
         @ prompt_timeline
         @ (if timeline_summary \<noteq> [] then timeline_summary
            else ''No timeline events extracted'')
         @ prompt_task)"

text \<open>
  \<open>extract_field\<close>: the pattern \<open>{field_name}:\s*(.+?)(?=\n[A-Z\s]+:|$)\<close> (its
  look-ahead \<open>(?=\n[A-Z\s]+:|$)\<close> is \<open>field_ahead\<close>), searched
  with \<open>re.DOTALL | re.IGNORECASE\<close>. The field names of the source are letters and
  spaces, so each stands for itself in the pattern. \<open>match.group(1).strip()\<close> raises
  \<open>AttributeError\<close> on a group that took no part.
\<close>

definition field_ahead :: rx where
  "field_ahead =
     Ahead (Alt (seqs [Lit (CHR 0x0A),
                       Rep (Union (Range (CHR ''A'') (CHR ''Z'')) Space) 1 None True,
                       Lit (CHR '':'')])
                Eos)"

definition field_pattern :: "string \<Rightarrow> rx" where
  "field_pattern field_name =
     seqs [lits field_name, Lit (CHR '':''), Rep Space 0 None True,
           Grp 1 (Rep AnyChar 1 None False), field_ahead]"

definition group_strip :: "match \<Rightarrow> nat \<Rightarrow> exn + string" where
  "group_strip m n =
     (case group m n of
        None \<Rightarrow> Inl (AttributeError
          (CHR 0x27 # ''NoneType'' @ [CHR 0x27] @ '' object has no attribute ''
             @ [CHR 0x27] @ ''strip'' @ [CHR 0x27]))
      | Some t \<Rightarrow> Inr (strip t))"

definition extract_field :: "string \<Rightarrow> string \<Rightarrow> exn + string" where
  "extract_field response_text field_name =
     (case re_search True (field_pattern field_name) response_text of
        Some m \<Rightarrow> group_strip m 1
      | None \<Rightarrow> Inr ''Not specified'')"

text \<open>Sequencing of steps that may raise: the first exception leaves the function.\<close>

definition try_bind :: "exn + 'a \<Rightarrow> ('a \<Rightarrow> exn + 'b) \<Rightarrow> exn + 'b" where
  "try_bind x f = (case x of Inl e \<Rightarrow> Inl e | Inr v \<Rightarrow> f v)"

text \<open>The dictionary display of \<open>_parse_analysis_response\<close> evaluates its fields in
  the order written.\<close>

definition parse_analysis_response :: "string \<Rightarrow> case_data \<Rightarrow> exn + analysis" where
  "parse_analysis_response response_text cd =
     try_bind (extract_field response_text ''CLASSIFICATION'') (\<lambda>c.
     try_bind (extract_field response_text ''NOTICE SENT'') (\<lambda>n.
     try_bind (extract_field response_text ''FIRM FAULT'') (\<lambda>f.
     try_bind (extract_field response_text ''FIRM FAULT EXPLANATION'') (\<lambda>fe.
     try_bind (extract_field response_text ''CURRENT STATUS'') (\<lambda>cs.
     try_bind (extract_field response_text ''RECOMMENDATION'') (\<lambda>rc.
     try_bind (extract_field response_text ''REASONING'') (\<lambda>rs.
     try_bind (extract_field response_text ''KEY EVIDENCE'') (\<lambda>k.
       Inr \<lparr>r_case_name = get_or (case_name cd) ''Unknown'',
            r_pdf_filename = get_or (pdf_filename cd) ''Unknown'',
            classification = c, notice_sent = n, firm_fault = f,
            firm_fault_explanation = fe, current_status = cs, recommendation = rc,
            reasoning = rs, key_evidence = k, full_analysis = response_text\<rparr>))))))))"

text \<open>
  \<open>analyze_client\<close>: build the prompt, call the service, parse
  \<open>response.content[0].text\<close>. There is no \<open>try\<close> in it: an exception of the call, or
  of the index into an empty content list, leaves the function.
\<close>

definition analyze_client :: "classifier \<Rightarrow> nat \<Rightarrow> case_data \<Rightarrow> exn + analysis" where
  "analyze_client self n cd =
     (case client self n (build_analysis_prompt self cd) of
        Inl e \<Rightarrow> Inl e
      | Inr [] \<Rightarrow> Inl (IndexError ''list index out of range'')
      | Inr (t # _) \<Rightarrow> parse_analysis_response t cd)"

text \<open>The dictionary appended by the \<open>except Exception as e\<close> branch of
  \<open>batch_analyze\<close>.\<close>

definition error_result :: "case_data \<Rightarrow> exn \<Rightarrow> analysis" where
  "error_result cd e =
     \<lparr>r_case_name = get_or (case_name cd) ''Unknown'',
      r_pdf_filename = get_or (pdf_filename cd) ''Unknown'',
      classification = ''Error during analysis'',
      notice_sent = ''N/A'',
      firm_fault = ''N/A'',
      firm_fault_explanation = ''Error: '' @ str_exn e,
      current_status = ''Error'',
      recommendation = ''Manual review required'',
      reasoning = ''Automated analysis failed'',
      key_evidence = ''N/A'',
      full_analysis = ''Error: '' @ str_exn e\<rparr>"

text \<open>
  Standard output. \<open>print\<close> writes the text and then the line end to
  \<open>sys.stdout\<close>; a write returns or raises (a stream whose encoding cannot encode a
  character of the text raises \<open>UnicodeEncodeError\<close>, a closed stream \<open>ValueError\<close>).
  A text is the list of its code points, since the status mark of the error line,
  U+274C, is outside the one-byte characters that \<open>string\<close> holds.
\<close>

type_synonym stdout = "nat list \<Rightarrow> exn option"

definition py_print :: "stdout \<Rightarrow> nat list \<Rightarrow> exn option" where
  "py_print out text = (case out text of Some e \<Rightarrow> Some e | None \<Rightarrow> out [10])"

text \<open>The two lines \<open>batch_analyze\<close> prints:
  \<open>f"\nAnalyzing {i}/{total}: {case_data.get('case_name', 'Unknown')}"\<close> and
  \<open>f"  \<dots> Error: {str(e)}"\<close>, the dots standing for the character U+274C.\<close>

definition analyzing_line :: "nat \<Rightarrow> nat \<Rightarrow> case_data \<Rightarrow> nat list" where
  "analyzing_line i tot cd =
     map code ([CHR 0x0A] @ ''Analyzing '' @ str_nat i @ ''/'' @ str_nat tot @ '': ''
               @ get_or (case_name cd) ''Unknown'')"

definition error_line :: "exn \<Rightarrow> nat list" where
  "error_line e = [32, 32, 0x274C] @ map code ('' Error: '' @ str_exn e)"

text \<open>The body of the \<open>try\<close> statement of the loop: the first line is printed, then
  the case is analysed.\<close>

definition try_body :: "stdout \<Rightarrow> classifier \<Rightarrow> nat \<Rightarrow> nat \<Rightarrow> case_data \<Rightarrow> exn + analysis" where
  "try_body out self i tot cd =
     (case py_print out (analyzing_line i tot cd) of
        Some e \<Rightarrow> Inl e
      | None \<Rightarrow> analyze_client self i cd)"

text \<open>
  The \<open>try\<close> statement: the case's result, or, in the handler
  \<open>except Exception as e\<close>, the error line is printed and the error result is the
  case's result. The \<open>print\<close> of the handler is under no \<open>try\<close>: what it raises
  leaves \<open>batch_analyze\<close>.
\<close>

definition try_analyze :: "stdout \<Rightarrow> classifier \<Rightarrow> nat \<Rightarrow> nat \<Rightarrow> case_data \<Rightarrow> exn + analysis" where
  "try_analyze out self i tot cd =
     (case try_body out self i tot cd of
        Inr result \<Rightarrow> Inr result
      | Inl e \<Rightarrow>
          (case py_print out (error_line e) of
             Some e' \<Rightarrow> Inl e'
           | None \<Rightarrow> Inr (error_result cd e)))"

text \<open>
  A progress callback is \<open>None\<close>, or a function of \<open>(current, total)\<close> that returns
  or raises (\<open>Some e\<close>). The loop \<open>for i, case_data in enumerate(cases, 1)\<close> calls it
  before the \<open>try\<close> statement, so what it raises leaves \<open>batch_analyze\<close>.
\<close>

type_synonym progress_callback = "(nat \<Rightarrow> nat \<Rightarrow> exn option) option"

definition call_progress :: "progress_callback \<Rightarrow> nat \<Rightarrow> nat \<Rightarrow> exn option" where
  "call_progress cb i tot = (case cb of None \<Rightarrow> None | Some f \<Rightarrow> f i tot)"

fun batch_loop ::
  "stdout \<Rightarrow> classifier \<Rightarrow> progress_callback \<Rightarrow> nat \<Rightarrow> nat \<Rightarrow> case_data list
   \<Rightarrow> analysis list \<Rightarrow> exn + analysis list" where
  "batch_loop out self cb tot i [] results = Inr results"
| "batch_loop out self cb tot i (cd # rest) results =
     (case call_progress cb i tot of
        Some e \<Rightarrow> Inl e
      | None \<Rightarrow>
          (case try_analyze out self i tot cd of
             Inl e \<Rightarrow> Inl e
           | Inr result \<Rightarrow> batch_loop out self cb tot (i + 1) rest (results @ [result])))"

definition batch_analyze ::
  "stdout \<Rightarrow> classifier \<Rightarrow> case_data list \<Rightarrow> progress_callback \<Rightarrow> exn + analysis list" where
  "batch_analyze out self cases cb = batch_loop out self cb (length cases) 1 cases []"

section \<open>behavior_classifier.py: the rule engine\<close>

text \<open>
  The names bound at module scope of \<open>behavior_classifier.py\<close>: its imports (lines 6 to
  8) and its two classes. \<open>import re\<close> stands inside
  \<open>BehaviorClassifier._parse_analysis_response\<close> (line 141) and binds \<open>re\<close> in that
  function's local scope only. Python's builtins have no \<open>re\<close> either.
\<close>

definition module_globals :: "string list" where
  "module_globals =
     [''os'', ''Dict'', ''List'', ''Optional'', ''Anthropic'',
      ''BehaviorClassifier'', ''SOPRuleEngine'']"

text \<open>Reading a global name: \<open>NameError\<close> when it is unbound.\<close>

definition load_global :: "string list \<Rightarrow> string \<Rightarrow> exn + unit" where
  "load_global globals name =
     (if List.member globals name then Inr ()
      else Inl (NameError (''name '' @ [CHR 0x27] @ name @ [CHR 0x27] @ '' is not defined'')))"

text \<open>The pattern \<open>\b(w1|w2|...)\b\<close>.\<close>

definition word_alt :: "rx list \<Rightarrow> rx" where
  "word_alt ws = seqs [WordB, Grp 1 (alts ws), WordB]"

definition e_special_indicators :: "(string \<times> rx) list" where
  "e_special_indicators =
     [(''yelling'',
         word_alt [lits ''yell'', lits ''scream'', lits ''shout'', lits ''raised voice'']),
      (''profanity'',
         word_alt [lits ''fuck'', lits ''shit'', lits ''damn'', lits ''bitch'', lits ''asshole'',
                   lits ''profanity'', lits ''cursing'', lits ''vulgar'']),
      (''threats_lawsuit'',
         word_alt [lits ''lawsuit'', lits ''sue'', lits ''legal action'',
                   lits ''taking you to court'']),
      (''threats_bar'',
         word_alt [lits ''state bar'', lits ''bar complaint'', lits ''report you'',
                   lits ''file complaint'']),
      (''threats_physical'',
         word_alt [lits ''physical'', lits ''harm'', lits ''hurt'', lits ''violence'',
                   lits ''beat'']),
      (''threats_review'',
         word_alt [lits ''bad review'', lits ''yelp'', lits ''google review'',
                   lits ''destroy your reputation'']),
      (''accusations'',
         word_alt [lits ''fraud'', lits ''theft'', lits ''steal'', lits ''criminal'',
                   lits ''scam'', lits ''con artist'']),
      (''hostile_conduct'',
         word_alt [lits ''pound'', lits ''slam'', lits ''aggressive'', lits ''intimidating'',
                   lits ''hostile'']),
      (''extreme_escalation'',
         word_alt [lits ''only speak to'', lits ''only talk to'', lits ''refuse to speak'',
                   lits ''hanging up'', lits ''hung up on''])]"

text \<open>
  In \<open>excessive_contact\<close> the outer group is group 1, \<open>(ed)?\<close> group 2 and
  \<open>(again|multiple times|daily|constantly)\<close> group 3.
\<close>

definition special_indicators :: "(string \<times> rx) list" where
  "special_indicators =
     [(''excessive_contact'',
         word_alt
           [seqs [lits ''call'', Opt (Grp 2 (lits ''ed'')), Lit (CHR '' ''),
                  Grp 3 (alts [lits ''again'', lits ''multiple times'', lits ''daily'',
                               lits ''constantly''])],
            lits ''excessive contact'']),
      (''dissatisfaction'',
         word_alt [lits ''dissatisfied'', lits ''unhappy'', lits ''frustrated'',
                   lits ''concerned'', lits ''worried'', lits ''not satisfied'']),
      (''reassurance_seeking'',
         word_alt [lits ''anything happening'', lits ''any update'',
                   lits (''what'' @ [CHR 0x27] @ ''s going on''), lits ''when will'']),
      (''complaints'',
         word_alt [lits ''complaint'', lits ''complain'', lits ''not happy with'',
                   lits ''issue with service'']),
      (''scope_expansion'',
         word_alt [lits ''also need'', lits ''in addition'', lits ''can you also'',
                   lits ''outside of contract'']),
      (''management_escalation'',
         word_alt [lits ''speak with manager'', lits ''talk to attorney'', lits ''escalate'',
                   lits ''someone in charge''])]"

text \<open>
  The loop \<open>for category, pattern in indicators.items(): if re.search(pattern,
  text_lower): matched.append(category)\<close>. Each iteration reads the global \<open>re\<close>
  first; an exception leaves the loop.
\<close>

fun match_indicators ::
  "string list \<Rightarrow> (string \<times> rx) list \<Rightarrow> string \<Rightarrow> string list \<Rightarrow> exn + string list" where
  "match_indicators globals [] text_lower matched = Inr matched"
| "match_indicators globals ((category, pattern) # rest) text_lower matched =
     (case load_global globals ''re'' of
        Inl e \<Rightarrow> Inl e
      | Inr _ \<Rightarrow>
          match_indicators globals rest text_lower
            (if re_search False pattern text_lower \<noteq> None then matched @ [category]
             else matched))"

definition has_e_special_indicators :: "string list \<Rightarrow> string \<Rightarrow> exn + (bool \<times> string list)" where
  "has_e_special_indicators globals text =
     (case match_indicators globals e_special_indicators (lower text) [] of
        Inl e \<Rightarrow> Inl e
      | Inr matched \<Rightarrow> Inr (length matched > 0, matched))"

definition has_special_indicators :: "string list \<Rightarrow> string \<Rightarrow> exn + (bool \<times> string list)" where
  "has_special_indicators globals text =
     (case match_indicators globals special_indicators (lower text) [] of
        Inl e \<Rightarrow> Inl e
      | Inr matched \<Rightarrow> Inr (length matched > 0, matched))"

section \<open>pdf_extractor.py: dates\<close>

text \<open>
  \<open>re.match\<close>: the pattern at the start of the text. The pattern need not reach the
  end of the text.
\<close>

definition re_match :: "bool \<Rightarrow> rx \<Rightarrow> string \<Rightarrow> match option" where
  "re_match ic r s =
     (case rmatch ic r (None, s) [] of
        [] \<Rightarrow> None
      | res # _ \<Rightarrow> Some \<lparr>m_start = s, m_end = fst res, m_groups = snd res\<rparr>)"

text \<open>
  \<open>datetime.strptime\<close> of the standard library (CPython's \<open>_strptime.py\<close>), for the
  directives the program uses. A format becomes a regular expression, each directive a
  named group (here: \<open>%Y\<close> group 1, \<open>%y\<close> group 2, \<open>%m\<close> group 3, \<open>%d\<close> group 4):
  \<open>%m\<close> is \<open>1[0-2]|0[1-9]|[1-9]\<close>, \<open>%d\<close> is \<open>3[0-1]|[1-2]\d|0[1-9]|[1-9]| [1-9]\<close>,
  \<open>%y\<close> is \<open>\d\d\<close> and \<open>%Y\<close> is \<open>\d\d\d\d\<close>. The expression is matched at the start
  of the string with \<open>re.IGNORECASE\<close>; text left over after the match is an error
  ("unconverted data remains"), and so is a date that is not in the calendar.
\<close>

datatype directive = DY | Dy | Dm | Dd | DLit char

definition chr_range :: "char \<Rightarrow> char \<Rightarrow> rx" where
  "chr_range a b = Cls (Range a b)"

fun directive_rx :: "directive \<Rightarrow> rx" where
  "directive_rx DY = Grp 1 (seqs [Cls Digit, Cls Digit, Cls Digit, Cls Digit])"
| "directive_rx Dy = Grp 2 (seqs [Cls Digit, Cls Digit])"
| "directive_rx Dm =
     Grp 3 (alts [seqs [Lit (CHR ''1''), chr_range (CHR ''0'') (CHR ''2'')],
                  seqs [Lit (CHR ''0''), chr_range (CHR ''1'') (CHR ''9'')],
                  chr_range (CHR ''1'') (CHR ''9'')])"
| "directive_rx Dd =
     Grp 4 (alts [seqs [Lit (CHR ''3''), chr_range (CHR ''0'') (CHR ''1'')],
                  seqs [chr_range (CHR ''1'') (CHR ''2''), Cls Digit],
                  seqs [Lit (CHR ''0''), chr_range (CHR ''1'') (CHR ''9'')],
                  chr_range (CHR ''1'') (CHR ''9''),
                  seqs [Lit (CHR '' ''), chr_range (CHR ''1'') (CHR ''9'')]])"
| "directive_rx (DLit c) = Lit c"

definition format_rx :: "directive list \<Rightarrow> rx" where
  "format_rx fmt = seqs (map directive_rx fmt)"

text \<open>\<open>int(s)\<close> on a string: blanks around the digits are dropped; anything but
  decimal digits raises \<open>ValueError\<close>.\<close>

definition digits_value :: "string \<Rightarrow> nat" where
  "digits_value s = foldl (\<lambda>a c. 10 * a + (code c - 48)) 0 s"

definition py_int :: "string \<Rightarrow> exn + nat" where
  "py_int s =
     (let t = strip s in
      if t \<noteq> [] \<and> list_all is_digit t then Inr (digits_value t)
      else Inl (ValueError ''invalid literal for int() with base 10''))"

definition is_leap :: "nat \<Rightarrow> bool" where
  "is_leap y = (y mod 4 = 0 \<and> (y mod 100 \<noteq> 0 \<or> y mod 400 = 0))"

definition days_in_month :: "nat \<Rightarrow> nat \<Rightarrow> nat" where
  "days_in_month y m =
     (if m = 2 then (if is_leap y then 29 else 28)
      else if m = 4 \<or> m = 6 \<or> m = 9 \<or> m = 11 then 30 else 31)"

text \<open>The constructor \<open>datetime(year, month, day)\<close>.\<close>

definition make_datetime :: "nat \<Rightarrow> nat \<Rightarrow> nat \<Rightarrow> exn + datetime" where
  "make_datetime y m d =
     (if y < 1 \<or> 9999 < y then Inl (ValueError ''year is out of range'')
      else if m < 1 \<or> 12 < m then Inl (ValueError ''month must be in 1..12'')
      else if d < 1 \<or> days_in_month y m < d then Inl (ValueError ''day is out of range for month'')
      else Inr (y, m, d))"

text \<open>A group as a number; a directive that the format does not have gives the
  default. A two-digit year up to 68 is in the 2000s, from 69 on in the 1900s.\<close>

definition group_int :: "match \<Rightarrow> nat \<Rightarrow> (nat \<Rightarrow> nat) \<Rightarrow> nat \<Rightarrow> exn + nat" where
  "group_int found n f dflt =
     (case group found n of
        None \<Rightarrow> Inr dflt
      | Some t \<Rightarrow> (case py_int t of Inl e \<Rightarrow> Inl e | Inr v \<Rightarrow> Inr (f v)))"

definition date_of_match :: "match \<Rightarrow> exn + datetime" where
  "date_of_match found =
     try_bind (case group found 1 of
                 Some t \<Rightarrow> py_int t
               | None \<Rightarrow> group_int found 2 (\<lambda>v. if v \<le> 68 then v + 2000 else v + 1900) 1900)
       (\<lambda>year.
     try_bind (group_int found 3 (\<lambda>v. v) 1) (\<lambda>month.
     try_bind (group_int found 4 (\<lambda>v. v) 1) (\<lambda>day.
       make_datetime year month day)))"

definition strptime :: "string \<Rightarrow> directive list \<Rightarrow> exn + datetime" where
  "strptime data_string fmt =
     (case re_match True (format_rx fmt) data_string of
        None \<Rightarrow> Inl (ValueError ''time data does not match format'')
      | Some found \<Rightarrow>
          if snd (m_end found) \<noteq> [] then Inl (ValueError ''unconverted data remains'')
          else date_of_match found)"

text \<open>\<open>_parse_date\<close>: the formats \<open>%m/%d/%Y\<close>, \<open>%m/%d/%y\<close>, \<open>%Y-%m-%d\<close>,
  \<open>%d-%m-%Y\<close> in this order; the first that parses wins, \<open>ValueError\<close> when none
  does.\<close>

definition formats :: "directive list list" where
  "formats =
     [[Dm, DLit (CHR ''/''), Dd, DLit (CHR ''/''), DY],
      [Dm, DLit (CHR ''/''), Dd, DLit (CHR ''/''), Dy],
      [DY, DLit (CHR ''-''), Dm, DLit (CHR ''-''), Dd],
      [Dd, DLit (CHR ''-''), Dm, DLit (CHR ''-''), DY]]"

fun try_formats :: "string \<Rightarrow> directive list list \<Rightarrow> exn + datetime" where
  "try_formats date_str [] = Inl (ValueError (''Cannot parse date: '' @ date_str))"
| "try_formats date_str (fmt # fmts) =
     (case strptime date_str fmt of
        Inr d \<Rightarrow> Inr d
      | Inl _ \<Rightarrow> try_formats date_str fmts)"

definition parse_date :: "string \<Rightarrow> exn + datetime" where
  "parse_date date_str = try_formats date_str formats"

section \<open>pdf_extractor.py: the timeline\<close>

text \<open>
  The two date patterns of \<open>_extract_timeline_events\<close>:
  \<open>(\d{1,2}/\d{1,2}/\d{2,4})\s*[-|]\s*(.+?)(?=\n\d{1,2}/\d{1,2}/\d{2,4}|\Z)\<close> and
  \<open>(\d{4}-\d{2}-\d{2})\s+(\d{2}:\d{2}[AP]M)?\s*(.+?)(?=\n\d{4}-\d{2}-\d{2}|\Z)\<close>,
  used with \<open>re.DOTALL | re.MULTILINE\<close>. Neither has \<open>^\<close> or \<open>$\<close>, so
  \<open>re.MULTILINE\<close> changes nothing.
\<close>

definition digits :: "nat \<Rightarrow> nat \<Rightarrow> rx" where
  "digits lo hi = Rep Digit lo (Some hi) True"

definition slash_date :: rx where
  "slash_date = seqs [digits 1 2, Lit (CHR ''/''), digits 1 2, Lit (CHR ''/''), digits 2 4]"

definition iso_date :: rx where
  "iso_date = seqs [digits 4 4, Lit (CHR ''-''), digits 2 2, Lit (CHR ''-''), digits 2 2]"

definition date_patterns :: "rx list" where
  "date_patterns =
     [seqs [Grp 1 slash_date, Rep Space 0 None True, Cls (Chars ''-|''),
            Rep Space 0 None True, Grp 2 (Rep AnyChar 1 None False),
            Ahead (Alt (seqs [Lit (CHR 0x0A), slash_date]) EndZ)],
      seqs [Grp 1 iso_date, Rep Space 1 None True,
            Opt (Grp 2 (seqs [digits 2 2, Lit (CHR '':''), digits 2 2, Cls (Chars ''AP''),
                              Lit (CHR ''M'')])),
            Rep Space 0 None True, Grp 3 (Rep AnyChar 1 None False),
            Ahead (Alt (seqs [Lit (CHR 0x0A), iso_date]) EndZ)]]"

text \<open>
  \<open>re.finditer\<close>: the matches from left to right, each search starting where the
  match before ended. Both date patterns consume at least the digits of a date; a match
  that consumed nothing would end the iteration here (Python would step one character
  on), which no pattern of the program can produce.
\<close>

function finditer :: "rx \<Rightarrow> char option \<Rightarrow> string \<Rightarrow> match list" where
  "finditer r p s =
     (case search_from False r p s of
        None \<Rightarrow> []
      | Some m \<Rightarrow>
          m # (if length (snd (m_end m)) < length s
               then finditer r (fst (m_end m)) (snd (m_end m))
               else []))"
  by pat_completeness auto
termination
  by (relation "measure (\<lambda>(r, p, s). length s)") (auto simp: case_prod_beta)

declare finditer.simps [simp del]

text \<open>\<open>len(match.groups())\<close>: the number of groups of the pattern.\<close>

fun count_groups :: "rx \<Rightarrow> nat" where
  "count_groups (Grp n a) = 1 + count_groups a"
| "count_groups (Seq a b) = count_groups a + count_groups b"
| "count_groups (Alt a b) = count_groups a + count_groups b"
| "count_groups (Opt a) = count_groups a"
| "count_groups (Ahead a) = count_groups a"
| "count_groups r = 0"

text \<open>
  The body of the loop over the matches. The inner \<open>try\<close> turns a date that does not
  parse into the date string itself; the outer \<open>except Exception: continue\<close> skips a
  match whose handling raised.
\<close>

definition event_of_match :: "nat \<Rightarrow> match \<Rightarrow> exn + event" where
  "event_of_match n_groups m =
     (case group m 1 of
        None \<Rightarrow> Inl (AttributeError ''date_str is None'')
      | Some date_str \<Rightarrow>
          try_bind (if n_groups = 2 then group_strip m 2 else group_strip m 3) (\<lambda>content.
            Inr \<lparr>ev_date = (case parse_date date_str of
                               Inr d \<Rightarrow> Parsed d
                             | Inl _ \<Rightarrow> RawToken date_str),
                 ev_content = take 500 content,
                 ev_raw_text = content\<rparr>))"

fun events_of_matches :: "nat \<Rightarrow> match list \<Rightarrow> event list" where
  "events_of_matches n_groups [] = []"
| "events_of_matches n_groups (m # ms) =
     (case event_of_match n_groups m of
        Inl _ \<Rightarrow> events_of_matches n_groups ms
      | Inr ev \<Rightarrow> ev # events_of_matches n_groups ms)"

definition pattern_events :: "string \<Rightarrow> rx \<Rightarrow> event list" where
  "pattern_events raw pattern =
     events_of_matches (count_groups pattern) (finditer pattern None raw)"

text \<open>The events in the order found, before sorting: all matches of the first pattern,
  then all of the second.\<close>

definition found_events :: "string \<Rightarrow> event list" where
  "found_events raw = concat (map (pattern_events raw) date_patterns)"

text \<open>
  The sort key \<open>x["date"] if isinstance(x["date"], datetime) else datetime.min\<close>.
  \<open>sorted\<close> is stable, as \<open>sort_key\<close> is.
\<close>

definition date_key :: "event \<Rightarrow> datetime" where
  "date_key x = (case ev_date x of Parsed d \<Rightarrow> d | RawToken _ \<Rightarrow> datetime_min)"

definition extract_timeline_events :: "string \<Rightarrow> event list" where
  "extract_timeline_events raw = sort_key date_key (found_events raw)"

section \<open>pdf_extractor.py: the most relevant snippets\<close>

text \<open>Python slices \<open>xs[:n]\<close> and \<open>xs[n:]\<close> for an integer \<open>n\<close> of either sign.\<close>

definition slice_to :: "'a list \<Rightarrow> int \<Rightarrow> 'a list" where
  "slice_to xs n = (if 0 \<le> n then take (nat n) xs else take (length xs - nat (- n)) xs)"

definition slice_from :: "'a list \<Rightarrow> int \<Rightarrow> 'a list" where
  "slice_from xs n = (if 0 \<le> n then drop (nat n) xs else drop (length xs - nat (- n)) xs)"

definition priority_keywords :: "string list" where
  "priority_keywords =
     [''yell'', ''scream'', ''profanity'', ''threat'', ''lawsuit'', ''state bar'',
      ''fraud'', ''incompetent'', ''complaint'', ''demand'', ''angry'', ''upset'',
      ''dissatisfied'', ''frustrated'', ''fire'', ''terminate'', ''refund'',
      ''review'', ''google'', ''yelp'', ''hang up'', ''refused to speak'']"

text \<open>\<open>sum(1 for keyword in priority_keywords if keyword in content)\<close>; \<open>in\<close> on
  strings is the substring test.\<close>

definition score :: "event \<Rightarrow> nat" where
  "score ev =
     length (filter (\<lambda>keyword. sublist keyword (lower (ev_raw_text ev))) priority_keywords)"

definition scored_events :: "event list \<Rightarrow> (nat \<times> event) list" where
  "scored_events evs = map (\<lambda>ev. (score ev, ev)) evs"

text \<open>\<open>scored_events.sort(key=lambda x: x[0], reverse=True)\<close>: a stable sort by
  descending score; equal scores keep their order.\<close>

definition sort_by_score :: "(nat \<times> event) list \<Rightarrow> (nat \<times> event) list" where
  "sort_by_score xs = sort_key (\<lambda>x. - int (fst x)) xs"

text \<open>The truncation \<open>scored_events[:limit]\<close> of the sorted list.\<close>

definition top_scored :: "event list \<Rightarrow> int \<Rightarrow> (nat \<times> event) list" where
  "top_scored evs limit = slice_to (sort_by_score (scored_events evs)) limit"

definition get_communication_snippets :: "event list \<Rightarrow> int \<Rightarrow> string list" where
  "get_communication_snippets timeline limit =
     (if timeline = [] then []
      else
        let top_events = map snd (filter (\<lambda>x. fst x > 0) (top_scored timeline limit));
            top_events = (if top_events = [] then slice_from timeline (- limit) else top_events)
        in map ev_raw_text top_events)"

section \<open>The date grammars in words\<close>























section \<open>The reply fields in words\<close>

text \<open>
  What \<open>extract_field\<close> gives, said without a regular expression. The label is looked
  for from the left, ignoring case; the first place where it stands, followed by a colon
  and by at least one more character, is taken. The white space after the colon, line
  ends included, is skipped. The field then runs from the first character that is not
  white space, for at least one character, up to the first place where the text ends, or
  only a final newline is left, or a newline follows and after it a run of letters and
  white space, over one line or several, that a colon closes (\<open>label_line\<close>; the run
  need not be one of the expected labels). The field is stripped of the white space
  around it. When only white space follows the colon the field is empty; when the label
  does not stand in the reply, or nothing follows its colon, the field is
  "Not specified".
\<close>

fun ci_prefix :: "string \<Rightarrow> string \<Rightarrow> bool" where
  "ci_prefix [] s = True"
| "ci_prefix (c # cs) [] = False"
| "ci_prefix (c # cs) (x # xs) = (lower_char x = lower_char c \<and> ci_prefix cs xs)"

fun after_label :: "string \<Rightarrow> string \<Rightarrow> string option" where
  "after_label l [] = None"
| "after_label l (x # xs) =
     (if ci_prefix l (x # xs) \<and> drop (length l) (x # xs) \<noteq> []
      then Some (drop (length l) (x # xs))
      else after_label l xs)"

definition is_ascii_letter :: "char \<Rightarrow> bool" where
  "is_ascii_letter c = (let n = code c in (65 \<le> n \<and> n \<le> 90) \<or> (97 \<le> n \<and> n \<le> 122))"

definition label_line :: "string \<Rightarrow> bool" where
  "label_line s =
     (case s of
        [] \<Rightarrow> False
      | c # t \<Rightarrow>
          c = CHR 0x0A
          \<and> takeWhile (\<lambda>x. is_ascii_letter x \<or> is_space x) t \<noteq> []
          \<and> (case dropWhile (\<lambda>x. is_ascii_letter x \<or> is_space x) t of
                [] \<Rightarrow> False
              | d # _ \<Rightarrow> d = CHR '':''))"

definition field_end :: "string \<Rightarrow> bool" where
  "field_end s = (s = [] \<or> s = [CHR 0x0A] \<or> label_line s)"

fun field_text :: "string \<Rightarrow> string" where
  "field_text [] = []"
| "field_text (c # cs) = c # (if field_end cs then [] else field_text cs)"

definition reply_field :: "string \<Rightarrow> string \<Rightarrow> string" where
  "reply_field label reply =
     (case after_label (label @ '':'') reply of
        None \<Rightarrow> ''Not specified''
      | Some rest \<Rightarrow>
          (let v = dropWhile is_space rest
           in if v = [] then [] else strip (field_text v)))"

section \<open>Date-leading lines in words\<close>












section \<open>Example inputs\<close>

text \<open>A classifier whose service call always fails, and one whose second call fails.\<close>

definition failing_classifier :: classifier where
  "failing_classifier =
     \<lparr>sop_content = ''SOP'', client = (\<lambda>n p. Inl (APIError ''overloaded''))\<rparr>"

definition flaky_classifier :: classifier where
  "flaky_classifier =
     \<lparr>sop_content = ''SOP'',
      client = (\<lambda>n p. if n = 2 then Inl (APIError ''overloaded'')
                       else Inr [''CLASSIFICATION: Normal\<newline>RECOMMENDATION: Continue representation''])\<rparr>"

definition suing_case :: case_data where
  "suing_case =
     \<lparr>case_name = Some ''Doe'',
      timeline_events = Some [\<lparr>ev_date = Parsed (2024, 3, 4),
         ev_content = ''I will sue you and report you to the State Bar'',
         ev_raw_text = ''I will sue you and report you to the State Bar''\<rparr>],
      metadata = Some [],
      raw_text = Some ''3/4/2024 - I will sue you and report you to the State Bar'',
      pdf_filename = Some ''doe.pdf''\<rparr>"

definition plain_case :: "string \<Rightarrow> case_data" where
  "plain_case name =
     \<lparr>case_name = Some name,
      timeline_events = Some [],
      metadata = Some [(''status'', ''Open'')],
      raw_text = Some ''Retainer payment received'',
      pdf_filename = Some (name @ ''.pdf'')\<rparr>"

definition three_cases :: "case_data list" where
  "three_cases = [plain_case ''Doe'', plain_case ''Roe'', plain_case ''Poe'']"

text \<open>
  A standard output that encodes every character (UTF-8), and one with the \<open>ascii\<close>
  codec and strict error handling: a text with a character from 128 on raises
  \<open>UnicodeEncodeError\<close>, whose message names the first run of such characters.
\<close>

definition utf8_stdout :: stdout where
  "utf8_stdout = (\<lambda>text. None)"

definition escaped :: "nat \<Rightarrow> string" where
  "escaped c =
     (if c < 256 then CHR 0x5C # ''x'' @ map (\<lambda>n. digit_char (n mod 16)) [c div 16, c]
      else if c < 65536
      then CHR 0x5C # ''u''
           @ map (\<lambda>n. digit_char (n mod 16)) [c div 4096, c div 256, c div 16, c]
      else CHR 0x5C # ''U''
           @ map (\<lambda>n. digit_char (n mod 16))
               [c div 268435456, c div 16777216, c div 1048576, c div 65536,
                c div 4096, c div 256, c div 16, c])"

definition ascii_stdout :: stdout where
  "ascii_stdout =
     (\<lambda>text.
        let pos = length (takeWhile (\<lambda>c. c < 128) text);
            run = takeWhile (\<lambda>c. 128 \<le> c) (drop pos text)
        in if run = [] then None
           else Some (UnicodeEncodeError
             (CHR 0x27 # ''ascii'' @ [CHR 0x27] @ '' codec can'' @ [CHR 0x27] @ ''t encode ''
              @ (if length run = 1
                 then ''character '' @ [CHR 0x27] @ escaped (hd run) @ [CHR 0x27]
                      @ '' in position '' @ str_nat pos
                 else ''characters in position '' @ str_nat pos @ ''-''
                      @ str_nat (pos + length run - 1))
              @ '': ordinal not in range(128)'')))"

text \<open>A callback that returns, and one that raises at the second case.\<close>

definition quiet_callback :: progress_callback where
  "quiet_callback = Some (\<lambda>i tot. None)"

definition raising_callback :: progress_callback where
  "raising_callback =
     Some (\<lambda>i tot. if i = 2 then Some (ValueError ''progress display failed'') else None)"

text \<open>A timeline in which two events have the same score.\<close>

definition tie_timeline :: "event list" where
  "tie_timeline =
     [\<lparr>ev_date = Parsed (2024, 1, 1), ev_content = ''complaint A'', ev_raw_text = ''complaint A''\<rparr>,
      \<lparr>ev_date = Parsed (2024, 2, 1), ev_content = ''complaint B'', ev_raw_text = ''complaint B''\<rparr>,
      \<lparr>ev_date = Parsed (2024, 3, 1), ev_content = ''paid'', ev_raw_text = ''paid''\<rparr>]"

text \<open>A timeline in which no event holds a priority keyword.\<close>

definition quiet_timeline :: "event list" where
  "quiet_timeline =
     [\<lparr>ev_date = Parsed (2024, 1, 1), ev_content = ''paid'', ev_raw_text = ''paid''\<rparr>,
      \<lparr>ev_date = Parsed (2024, 2, 1), ev_content = ''filed'', ev_raw_text = ''filed''\<rparr>,
      \<lparr>ev_date = Parsed (2024, 3, 1), ev_content = ''mailed'', ev_raw_text = ''mailed''\<rparr>]"
section \<open>Properties of the rule engine\<close>

lemma match_indicators_unbound:
  "load_global globals ''re'' = Inl e \<Longrightarrow> inds \<noteq> [] \<Longrightarrow>
   match_indicators globals inds t matched = Inl e"
  by (cases inds) auto

lemma load_re_module_globals:
  "load_global module_globals ''re'' =
     Inl (NameError (''name '' @ [CHR 0x27] @ ''re'' @ [CHR 0x27] @ '' is not defined''))"
  by (simp add: load_global_def module_globals_def)

text \<open>
  C3. With the names bound at module scope of \<open>behavior_classifier.py\<close>, every call of
  \<open>SOPRuleEngine.has_e_special_indicators\<close> and of
  \<open>SOPRuleEngine.has_special_indicators\<close>, on every text, raises
  \<open>NameError: name 're' is not defined\<close> and returns no tag list: \<open>re\<close> is bound only
  inside \<open>_parse_analysis_response\<close>.
\<close>

theorem rule_engine_raises_NameError:
  "has_e_special_indicators module_globals text =
     Inl (NameError (''name '' @ [CHR 0x27] @ ''re'' @ [CHR 0x27] @ '' is not defined''))
   \<and> has_special_indicators module_globals text =
     Inl (NameError (''name '' @ [CHR 0x27] @ ''re'' @ [CHR 0x27] @ '' is not defined''))"
proof -
  have e: "e_special_indicators \<noteq> []"
    by (simp add: e_special_indicators_def)
  have s: "special_indicators \<noteq> []"
    by (simp add: special_indicators_def)
  show ?thesis
    unfolding has_e_special_indicators_def has_special_indicators_def
    using match_indicators_unbound [OF load_re_module_globals e]
      match_indicators_unbound [OF load_re_module_globals s]
    by simp
qed

text \<open>
  What the patterns give once \<open>re\<close> is bound at module scope (as \<open>import re\<close> at the
  top of the file would do): the tags of the two example texts.
\<close>

lemma rule_engine_examples_with_re_bound:
  "has_e_special_indicators (''re'' # module_globals)
     ''I will sue you and report you to the State Bar''
     = Inr (True, [''threats_lawsuit'', ''threats_bar''])"
  "has_special_indicators (''re'' # module_globals)
     ''can you also help with an unrelated matter''
     = Inr (True, [''scope_expansion''])"
  "has_e_special_indicators (''re'' # module_globals)
     ''can you also help with an unrelated matter''
     = Inr (False, [])"
  by code_simp+

text \<open>
  C2. On the text "I will sue you and report you to the State Bar" the engine of the
  source returns no tag set: the call raises \<open>NameError\<close>; so does the call of
  \<open>has_special_indicators\<close> on "can you also help with an unrelated matter".
\<close>

theorem rule_engine_examples_raise:
  "has_e_special_indicators module_globals
     ''I will sue you and report you to the State Bar''
     = Inl (NameError (''name '' @ [CHR 0x27] @ ''re'' @ [CHR 0x27] @ '' is not defined''))
   \<and> has_special_indicators module_globals
     ''can you also help with an unrelated matter''
     = Inl (NameError (''name '' @ [CHR 0x27] @ ''re'' @ [CHR 0x27] @ '' is not defined''))"
  by code_simp

section \<open>Facts about characters and the matcher\<close>

lemma code_char_of: "n < 256 \<Longrightarrow> code (char_of n) = n"
  by (simp add: code_def)

lemma code_lt: "code c < 256"
  by (simp add: code_def)

lemma code_inj: "code a = code b \<Longrightarrow> a = b"
  by (simp add: code_def)

lemma code_lower_char:
  "code (lower_char c) =
     (if (65 \<le> code c \<and> code c \<le> 90) \<or> (192 \<le> code c \<and> code c \<le> 222 \<and> code c \<noteq> 215)
      then code c + 32 else code c)"
  by (auto simp: lower_char_def Let_def code_char_of)

lemma code_upper_char:
  "code (upper_char c) =
     (if (97 \<le> code c \<and> code c \<le> 122) \<or> (224 \<le> code c \<and> code c \<le> 254 \<and> code c \<noteq> 247)
      then code c - 32 else code c)"
  by (auto simp: upper_char_def Let_def code_char_of)

lemma in_cset_Digit [simp]: "in_cset ic Digit c = is_digit c"
  by (auto simp: in_cset_def is_digit_def Let_def code_lower_char code_upper_char split: if_splits)

lemma in_cset_Space [simp]: "in_cset ic Space c = is_space c"
  by (auto simp: in_cset_def is_space_def Let_def code_lower_char code_upper_char split: if_splits)

lemma in_cset_AnyChar [simp]: "in_cset ic AnyChar c"
  by (simp add: in_cset_def)

lemma in_cset_AnyChar_fun: "in_cset ic AnyChar = (\<lambda>_. True)"
  by (rule ext) simp


lemma lit_eq_nonletter:
  "code c < 65 \<Longrightarrow> lit_eq ic x c = (x = c)"
  by (auto simp: lit_eq_def code_lower_char dest!: arg_cong [where f = code] intro: code_inj split: if_splits)

lemma seqs_Nil [simp]: "seqs [] = Eps"
  by (simp add: seqs_def)

lemma seqs_Cons [simp]: "seqs (r # rs) = Seq r (seqs rs)"
  by (simp add: seqs_def)

lemma lits_Nil [simp]: "lits [] = Eps"
  by (simp add: lits_def)

lemma lits_Cons [simp]: "lits (c # cs) = Seq (Lit c) (lits cs)"
  by (simp add: lits_def)

section \<open>Properties of \<open>get_communication_snippets\<close>\<close>

lemma prefix_filter_take:
  "prefix (filter P (take n xs)) (filter P xs)"
proof -
  have "filter P xs = filter P (take n xs) @ filter P (drop n xs)"
    by (metis append_take_drop_id filter_append)
  then show ?thesis by (simp add: prefix_def)
qed

lemma sort_by_score_stable:
  "filter (\<lambda>x. fst x = k) (sort_by_score xs) = filter (\<lambda>x. fst x = k) xs"
proof -
  have "filter (\<lambda>x. - int (fst x) = - int k) (sort_key (\<lambda>x. - int (fst x)) xs)
        = filter (\<lambda>x. - int (fst x) = - int k) xs"
    by (rule sort_key_stable)
  then show ?thesis by (simp add: sort_by_score_def)
qed

text \<open>In a list sorted by descending score the events with a positive score come first.\<close>

lemma filter_positive_sorted:
  "sorted (map (\<lambda>x. - int (fst x)) xs) \<Longrightarrow>
   filter (\<lambda>x. 0 < fst x) xs = takeWhile (\<lambda>x. 0 < fst x) xs"
proof (induction xs)
  case Nil
  then show ?case by simp
next
  case (Cons x xs)
  show ?case
  proof (cases "0 < fst x")
    case True
    then show ?thesis using Cons by simp
  next
    case False
    have "\<forall>y \<in> set xs. fst y \<le> fst x"
      using Cons.prems by auto
    then have "filter (\<lambda>x. 0 < fst x) xs = []"
      using False by (auto simp: filter_empty_conv)
    then show ?thesis using False by simp
  qed
qed

lemma filter_positive_take:
  assumes "sorted (map (\<lambda>x. - int (fst x)) xs)"
  shows "filter (\<lambda>x. 0 < fst x) (take n xs) = take n (filter (\<lambda>x. 0 < fst x) xs)"
proof -
  have "sorted (map (\<lambda>x. - int (fst x)) (take n xs))"
    using assms by (simp add: take_map [symmetric] sorted_wrt_take)
  then have "filter (\<lambda>x. 0 < fst x) (take n xs) = takeWhile (\<lambda>x. 0 < fst x) (take n xs)"
    by (rule filter_positive_sorted)
  also have "\<dots> = take n (takeWhile (\<lambda>x. 0 < fst x) xs)"
    by (induction xs arbitrary: n) (auto simp: take_Cons split: nat.splits)
  also have "\<dots> = take n (filter (\<lambda>x. 0 < fst x) xs)"
    using assms by (simp add: filter_positive_sorted)
  finally show ?thesis .
qed

lemma scored_events_filter:
  "map snd (filter P (scored_events evs)) = filter (\<lambda>ev. P (score ev, ev)) evs"
  by (induction evs) (simp_all add: scored_events_def)

text \<open>
  C7 (as the code has it). Ties are broken by position in the timeline, not by recency.
  For a limit of at least one, the events with a positive score are ranked by
  descending score, events of equal score in timeline order (the sort is stable, and the
  timeline is in ascending date order), and the snippets are those of the first
  \<open>limit\<close> events of this ranking: among the events of one score an initial part, in
  timeline order, is selected, that is, the earlier ones. Recency decides only when no
  event has a positive score: then the snippets are those of the last \<open>limit\<close> events of
  the timeline.
\<close>

theorem ties_keep_timeline_order:
  assumes "0 < limit"
  shows "\<exists>ranked.
           mset ranked = mset (filter (\<lambda>ev. 0 < score ev) timeline)
           \<and> sorted (map (\<lambda>ev. - int (score ev)) ranked)
           \<and> (\<forall>k. filter (\<lambda>ev. score ev = k) ranked
                    = filter (\<lambda>ev. score ev = k \<and> 0 < k) timeline)
           \<and> (\<forall>k. prefix (filter (\<lambda>ev. score ev = k) (take (nat limit) ranked))
                           (filter (\<lambda>ev. score ev = k) timeline))
           \<and> get_communication_snippets timeline limit
               = map ev_raw_text
                   (if ranked = [] then drop (length timeline - nat limit) timeline
                    else take (nat limit) ranked)"
proof -
  let ?S = "sort_by_score (scored_events timeline)"
  let ?pos = "\<lambda>x :: nat \<times> event. 0 < fst x"
  define ranked where "ranked = map snd (filter ?pos ?S)"
  have sortedS: "sorted (map (\<lambda>x. - int (fst x)) ?S)"
    by (simp add: sort_by_score_def)
  have fst_snd: "fst x = score (snd x)" if "x \<in> set ?S" for x
    using that by (auto simp: sort_by_score_def scored_events_def)
  have m: "mset ranked = mset (filter (\<lambda>ev. 0 < score ev) timeline)"
  proof -
    have "mset (filter ?pos ?S) = mset (filter ?pos (scored_events timeline))"
      by (simp add: sort_by_score_def)
    then have "mset ranked = mset (map snd (filter ?pos (scored_events timeline)))"
      unfolding ranked_def by (metis mset_map)
    then show ?thesis
      by (simp add: scored_events_filter)
  qed
  have s: "sorted (map (\<lambda>ev. - int (score ev)) ranked)"
  proof -
    have "map (\<lambda>ev. - int (score ev)) ranked = map (\<lambda>x. - int (fst x)) (filter ?pos ?S)"
      unfolding ranked_def using fst_snd by (auto simp: map_eq_conv)
    moreover have "sorted (map (\<lambda>x. - int (fst x)) (filter ?pos ?S))"
      using sortedS by (rule sorted_filter)
    ultimately show ?thesis by simp
  qed
  have st: "filter (\<lambda>ev. score ev = k) ranked
              = filter (\<lambda>ev. score ev = k \<and> 0 < k) timeline" for k
  proof -
    have "filter (\<lambda>ev. score ev = k) ranked
            = map snd (filter (\<lambda>x. fst x = k) (filter ?pos ?S))"
      unfolding ranked_def filter_map using fst_snd
      by (intro arg_cong [where f = "map snd"] filter_cong) auto
    also have "\<dots> = map snd (filter ?pos (filter (\<lambda>x. fst x = k) ?S))"
      by (simp add: conj_commute)
    also have "\<dots> = map snd (filter ?pos (filter (\<lambda>x. fst x = k) (scored_events timeline)))"
      by (simp only: sort_by_score_stable)
    also have "\<dots> = filter (\<lambda>ev. score ev = k \<and> 0 < k) timeline"
      by (simp add: scored_events_filter) (metis (mono_tags, lifting) filter_cong)
    finally show ?thesis .
  qed
  have pre: "prefix (filter (\<lambda>ev. score ev = k) (take (nat limit) ranked))
                    (filter (\<lambda>ev. score ev = k) timeline)" for k
  proof (cases "0 < k")
    case True
    have "prefix (filter (\<lambda>ev. score ev = k) (take (nat limit) ranked))
                 (filter (\<lambda>ev. score ev = k) ranked)"
      by (rule prefix_filter_take)
    then show ?thesis
      using True by (simp add: st)
  next
    case False
    have "filter (\<lambda>ev. score ev = k) ranked = []"
      using False by (simp add: st)
    then have "filter (\<lambda>ev. score ev = k) (take (nat limit) ranked) = []"
      by (metis prefix_filter_take prefix_bot.extremum_uniqueI)
    then show ?thesis by simp
  qed
  have top: "map snd (filter ?pos (top_scored timeline limit)) = take (nat limit) ranked"
    using assms
    by (simp add: top_scored_def slice_to_def ranked_def filter_positive_take [OF sortedS]
        take_map)
  have g: "get_communication_snippets timeline limit
             = map ev_raw_text
                 (if ranked = [] then drop (length timeline - nat limit) timeline
                  else take (nat limit) ranked)"
  proof (cases "timeline = []")
    case True
    then show ?thesis
      using m by (simp add: get_communication_snippets_def)
  next
    case False
    have e: "take (nat limit) ranked = [] \<longleftrightarrow> ranked = []"
      using assms by (cases ranked) auto
    show ?thesis
      using False assms
      by (simp add: get_communication_snippets_def Let_def top e slice_from_def)
  qed
  show ?thesis
    using m s st pre g by blast
qed

theorem ties_keep_timeline_order_witness:
  "(0::int) < 1
   \<and> (\<exists>ranked. mset ranked = mset (filter (\<lambda>ev. 0 < score ev) tie_timeline)
         \<and> get_communication_snippets tie_timeline 1 = map ev_raw_text (take 1 ranked))
   \<and> get_communication_snippets tie_timeline 1 = [''complaint A'']
   \<and> get_communication_snippets quiet_timeline 2 = [''filed'', ''mailed'']"
proof -
  have pos: "filter (\<lambda>ev. 0 < score ev) tie_timeline \<noteq> []"
    by code_simp
  have a: "get_communication_snippets tie_timeline 1 = [''complaint A'']"
    by code_simp
  have b: "get_communication_snippets quiet_timeline 2 = [''filed'', ''mailed'']"
    by code_simp
  from ties_keep_timeline_order [of 1 tie_timeline]
  obtain ranked where r: "mset ranked = mset (filter (\<lambda>ev. 0 < score ev) tie_timeline)"
    and g: "get_communication_snippets tie_timeline 1
              = map ev_raw_text
                  (if ranked = [] then drop (length tie_timeline - nat 1) tie_timeline
                   else take (nat 1) ranked)"
    by auto
  have "ranked \<noteq> []"
    using r pos by auto
  then have "get_communication_snippets tie_timeline 1 = map ev_raw_text (take 1 ranked)"
    using g by simp
  then show ?thesis
    using r a b by auto
qed

text \<open>
  C7 as the spec states it fails: of two events with the same score, dated 1 January and
  1 February 2024, the truncation to one event selects the earlier one.
\<close>

theorem tie_recency_counterexample:
  "extract_timeline_events
     ''1/1/2024 - complaint A\<newline>2/1/2024 - complaint B\<newline>3/1/2024 - paid'' = tie_timeline
   \<and> map score tie_timeline = [1, 1, 0]
   \<and> get_communication_snippets tie_timeline 1 = [''complaint A'']"
  by code_simp

section \<open>Properties of the timeline\<close>

lemma sorted_nth_le:
  "sorted (map f xs) \<Longrightarrow> i \<le> j \<Longrightarrow> j < length xs \<Longrightarrow> f (xs ! i) \<le> f (xs ! j)"
  using sorted_nth_mono [of "map f xs" i j] by simp

text \<open>
  C5 (as the code has it). The timeline is the extracted events sorted, stably, by the
  sort key: the date of an event whose date parsed, \<open>datetime.min\<close> for an event that
  kept its raw date string. So the keys ascend, no event is lost or added, events of
  equal key keep the order in which they were found, and every raw-token event stands
  before every event whose parsed date is later than \<open>datetime.min\<close>.
\<close>

theorem timeline_sorted_by_key:
  "sorted (map date_key (extract_timeline_events raw))
   \<and> mset (extract_timeline_events raw) = mset (found_events raw)
   \<and> filter (\<lambda>x. date_key x = k) (extract_timeline_events raw)
       = filter (\<lambda>x. date_key x = k) (found_events raw)
   \<and> (\<forall>i j t d. i < length (extract_timeline_events raw)
         \<and> j < length (extract_timeline_events raw)
         \<and> ev_date (extract_timeline_events raw ! i) = RawToken t
         \<and> ev_date (extract_timeline_events raw ! j) = Parsed d
         \<and> datetime_min < d
        \<longrightarrow> i < j)"
proof -
  let ?tl = "extract_timeline_events raw"
  have s: "sorted (map date_key ?tl)"
    by (simp add: extract_timeline_events_def)
  have m: "mset ?tl = mset (found_events raw)"
    by (simp add: extract_timeline_events_def)
  have st: "filter (\<lambda>x. date_key x = k) ?tl = filter (\<lambda>x. date_key x = k) (found_events raw)"
    unfolding extract_timeline_events_def by (rule sort_key_stable)
  have ord: "i < j"
    if "i < length ?tl" "j < length ?tl" "ev_date (?tl ! i) = RawToken t"
      "ev_date (?tl ! j) = Parsed d" "datetime_min < d" for i j t d
  proof (rule ccontr)
    assume "\<not> i < j"
    then have "j \<le> i" by simp
    from sorted_nth_le [OF s this that(1)]
    have "date_key (?tl ! j) \<le> date_key (?tl ! i)" .
    then have "d \<le> datetime_min"
      using that(3,4) by (simp add: date_key_def)
    then show False using that(5) by simp
  qed
  show ?thesis
    using s m st ord by blast
qed

theorem timeline_sorted_by_key_witness:
  "extract_timeline_events ''3/4/2024 - a\<newline>2/30/2024 - b''
     = [\<lparr>ev_date = RawToken ''2/30/2024'', ev_content = ''b'', ev_raw_text = ''b''\<rparr>,
        \<lparr>ev_date = Parsed (2024, 3, 4), ev_content = ''a'', ev_raw_text = ''a''\<rparr>]
   \<and> datetime_min < (2024, 3, 4)
   \<and> sorted (map date_key (extract_timeline_events ''3/4/2024 - a\<newline>2/30/2024 - b''))
   \<and> (0::nat) < 1"
proof -
  have ev: "extract_timeline_events ''3/4/2024 - a\<newline>2/30/2024 - b''
     = [\<lparr>ev_date = RawToken ''2/30/2024'', ev_content = ''b'', ev_raw_text = ''b''\<rparr>,
        \<lparr>ev_date = Parsed (2024, 3, 4), ev_content = ''a'', ev_raw_text = ''a''\<rparr>]"
    by code_simp
  have lt: "datetime_min < (2024, 3, 4)"
    by (simp add: datetime_min_def)
  from timeline_sorted_by_key [of "''3/4/2024 - a\<newline>2/30/2024 - b''" datetime_min]
  have "sorted (map date_key (extract_timeline_events ''3/4/2024 - a\<newline>2/30/2024 - b''))"
    and "\<forall>i j t d. i < length (extract_timeline_events ''3/4/2024 - a\<newline>2/30/2024 - b'')
         \<and> j < length (extract_timeline_events ''3/4/2024 - a\<newline>2/30/2024 - b'')
         \<and> ev_date (extract_timeline_events ''3/4/2024 - a\<newline>2/30/2024 - b'' ! i) = RawToken t
         \<and> ev_date (extract_timeline_events ''3/4/2024 - a\<newline>2/30/2024 - b'' ! j) = Parsed d
         \<and> datetime_min < d
        \<longrightarrow> i < j"
    by blast+
  then show ?thesis
    using ev lt by simp
qed

text \<open>
  C5 as the spec states it fails: a date that parses to \<open>datetime.min\<close> itself
  (\<open>1/1/0001\<close>) has the key of a raw token, and the stable sort leaves it where it was
  found, here before the raw token \<open>2/30/2024\<close>.
\<close>

theorem raw_token_first_counterexample:
  "extract_timeline_events ''1/1/0001 - a\<newline>2/30/2024 - b''
     = [\<lparr>ev_date = Parsed (1, 1, 1), ev_content = ''a'', ev_raw_text = ''a''\<rparr>,
        \<lparr>ev_date = RawToken ''2/30/2024'', ev_content = ''b'', ev_raw_text = ''b''\<rparr>]"
  by code_simp

section \<open>Properties of \<open>_parse_date\<close>\<close>




























lemma try_bind_value [simp]: "try_bind (Inr v) f = f v"
  by (simp add: try_bind_def)











section \<open>Properties of \<open>_parse_analysis_response\<close>\<close>

lemma in_cset_letters_blanks:
  "in_cset True (Union (Range (CHR ''A'') (CHR ''Z'')) Space) c
     = (is_ascii_letter c \<or> is_space c)"
proof -
  have A: "code (CHR ''A'') = 65" and Z: "code (CHR ''Z'') = 90"
    by (simp_all add: code_def)
  show ?thesis
    unfolding in_cset_def raw_in_cset.simps is_ascii_letter_def is_space_def Let_def
      code_lower_char code_upper_char A Z
    by (simp split: if_splits) arith
qed

lemma rmatch_Seq_nonempty:
  "rmatch ic (Seq a b) cur g \<noteq> []
     \<longleftrightarrow> (\<exists>x \<in> set (rmatch ic a cur g). rmatch ic b (fst x) (snd x) \<noteq> [])"
  by auto

lemma rep_then_lit:
  assumes "\<not> P c"
  shows "(\<exists>x \<in> set (drop lo (rep_cursors P None p t)). \<exists>rest. snd x = c # rest)
         \<longleftrightarrow> lo \<le> length (takeWhile P t) \<and> (\<exists>rest. dropWhile P t = c # rest)"
proof (induction t arbitrary: p lo)
  case Nil
  then show ?case by (cases lo) auto
next
  case (Cons x xs)
  show ?case
  proof (cases "P x")
    case True
    then have xc: "x \<noteq> c" using assms by auto
    show ?thesis
    proof (cases lo)
      case 0
      then show ?thesis
        using True xc Cons.IH [of 0 "Some x"] by auto
    next
      case (Suc k)
      then show ?thesis
        using True Cons.IH [of k "Some x"] by auto
    qed
  next
    case False
    then show ?thesis by (cases lo) auto
  qed
qed

text \<open>The look-ahead of the field pattern holds exactly at the end of a field.\<close>

lemma rmatch_Lit_ic:
  "code c < 65 \<Longrightarrow>
   rmatch True (Lit c) (p, s) g = (case s of [] \<Rightarrow> [] | x # xs \<Rightarrow> if x = c then [((Some x, xs), g)] else [])"
  by (simp add: lit_eq_nonletter split: list.splits)

lemma lit_eps_nonempty:
  "code c < 65 \<Longrightarrow>
   rmatch True (Seq (Lit c) Eps) cur g \<noteq> [] \<longleftrightarrow> (\<exists>rest. snd cur = c # rest)"
  by (cases "snd cur") (auto simp: lit_eq_nonletter)

lemma colon_not_letter_or_blank:
  "\<not> (is_ascii_letter (CHR '':'') \<or> is_space (CHR '':''))"
  by (simp add: is_ascii_letter_def is_space_def code_def)

lemma rmatch_label_line:
  "rmatch True (seqs [Lit (CHR 0x0A),
                      Rep (Union (Range (CHR ''A'') (CHR ''Z'')) Space) 1 None True,
                      Lit (CHR '':'')]) (p, s) g \<noteq> []
   \<longleftrightarrow> label_line s"
proof (cases s)
  case Nil
  then show ?thesis by (simp add: label_line_def)
next
  case (Cons x t)
  let ?P = "\<lambda>x. is_ascii_letter x \<or> is_space x"
  have P: "in_cset True (Union (Range (CHR ''A'') (CHR ''Z'')) Space) = ?P"
    by (rule ext) (rule in_cset_letters_blanks)
  have nl: "code (CHR 0x0A) < 65" and co: "code (CHR '':'') < 65"
    by (simp_all add: code_def)
  have inner: "rmatch True (seqs [Rep (Union (Range (CHR ''A'') (CHR ''Z'')) Space) 1 None True,
                      Lit (CHR '':'')]) (q, t) g \<noteq> []
        \<longleftrightarrow> (\<exists>y \<in> set (drop 1 (rep_cursors ?P None q t)). \<exists>rest. snd y = CHR '':'' # rest)"
    for q
  proof -
    have "rmatch True (seqs [Rep (Union (Range (CHR ''A'') (CHR ''Z'')) Space) 1 None True,
                      Lit (CHR '':'')]) (q, t) g \<noteq> []
          \<longleftrightarrow> (\<exists>x \<in> set (rmatch True
                 (Rep (Union (Range (CHR ''A'') (CHR ''Z'')) Space) 1 None True) (q, t) g).
                rmatch True (Seq (Lit (CHR '':'')) Eps) (fst x) (snd x) \<noteq> [])"
      unfolding seqs_Cons seqs_Nil by (rule rmatch_Seq_nonempty)
    also have "\<dots> \<longleftrightarrow> (\<exists>x \<in> set (rmatch True
                 (Rep (Union (Range (CHR ''A'') (CHR ''Z'')) Space) 1 None True) (q, t) g).
                \<exists>rest. snd (fst x) = CHR '':'' # rest)"
      by (simp only: lit_eps_nonempty [OF co])
    also have "\<dots> \<longleftrightarrow> (\<exists>y \<in> set (drop 1 (rep_cursors ?P None q t)).
                \<exists>rest. snd y = CHR '':'' # rest)"
      by (simp add: P)
    finally show ?thesis .
  qed
  have "rmatch True (seqs [Lit (CHR 0x0A),
                      Rep (Union (Range (CHR ''A'') (CHR ''Z'')) Space) 1 None True,
                      Lit (CHR '':'')]) (p, s) g \<noteq> []
        \<longleftrightarrow> x = CHR 0x0A
            \<and> rmatch True (seqs [Rep (Union (Range (CHR ''A'') (CHR ''Z'')) Space) 1 None True,
                      Lit (CHR '':'')]) (Some x, t) g \<noteq> []"
    using Cons
    by (cases "x = CHR 0x0A") (simp_all add: lit_eq_nonletter [OF nl] del: rmatch.simps(4))
  also have "\<dots> \<longleftrightarrow> x = CHR 0x0A
            \<and> 1 \<le> length (takeWhile ?P t) \<and> (\<exists>rest. dropWhile ?P t = CHR '':'' # rest)"
    unfolding inner
    using rep_then_lit [of ?P "CHR '':''" 1 "Some x" t] colon_not_letter_or_blank
    by blast
  also have "\<dots> \<longleftrightarrow> label_line s"
  proof (cases "dropWhile ?P t")
    case Nil
    have l: "\<not> (\<exists>rest. dropWhile ?P t = CHR '':'' # rest)"
      unfolding Nil by simp
    have r: "\<not> label_line s"
      unfolding label_line_def \<open>s = x # t\<close> list.case Nil by simp
    show ?thesis using l r by blast
  next
    case (Cons d ds)
    have l: "(\<exists>rest. dropWhile ?P t = CHR '':'' # rest) \<longleftrightarrow> d = CHR '':''"
      unfolding Cons by simp
    have r: "label_line s \<longleftrightarrow> x = CHR 0x0A \<and> takeWhile ?P t \<noteq> [] \<and> d = CHR '':''"
      unfolding label_line_def \<open>s = x # t\<close> list.case Cons by simp
    have n: "1 \<le> length (takeWhile ?P t) \<longleftrightarrow> takeWhile ?P t \<noteq> []"
      by (cases "takeWhile ?P t") simp_all
    show ?thesis unfolding l r n by blast
  qed
  finally show ?thesis .
qed

lemma rmatch_ahead:
  "rmatch True field_ahead (p, s) g
     = (if field_end s then [((p, s), g)] else [])"
proof (cases "label_line s")
  case True
  then show ?thesis
    using rmatch_label_line [of p s g]
    by (simp add: field_end_def field_ahead_def del: seqs_Cons)
next
  case False
  then have "rmatch True (seqs [Lit (CHR 0x0A),
                      Rep (Union (Range (CHR ''A'') (CHR ''Z'')) Space) 1 None True,
                      Lit (CHR '':'')]) (p, s) g = []"
    using rmatch_label_line [of p s g] by blast
  then show ?thesis
    using False by (simp add: field_end_def field_ahead_def del: seqs_Cons)
qed

text \<open>The lazy group \<open>(.+?)\<close> before the look-ahead stops at the first end of field.\<close>

lemma rmatch_ahead_eps:
  "rmatch True (Seq field_ahead Eps) c g
     = (if field_end (snd c) then [(c, g)] else [])"
proof -
  obtain p s where c: "c = (p, s)" by (cases c)
  show ?thesis
    unfolding c rmatch.simps(5) rmatch_ahead by simp
qed

lemma lazy_scan:
  "w = pre @ s \<Longrightarrow>
   \<exists>r rs. concat (map (\<lambda>c. if field_end (snd c)
                              then [(c, (1, take (length w - length (snd c)) w) # g)]
                              else [])
                    (rep_cursors (\<lambda>_. True) None q s)) = r # rs
          \<and> snd r = (1, pre @ (if field_end s then [] else field_text s)) # g"
proof (induction s arbitrary: pre q)
  case Nil
  then show ?case by (simp add: field_end_def)
next
  case (Cons x xs)
  show ?case
  proof (cases "field_end (x # xs)")
    case True
    then show ?thesis using Cons.prems by simp
  next
    case False
    have w: "w = (pre @ [x]) @ xs"
      using Cons.prems by simp
    from Cons.IH [OF w, of "Some x"] obtain r rs where
      "concat (map (\<lambda>c. if field_end (snd c)
                              then [(c, (1, take (length w - length (snd c)) w) # g)]
                              else [])
                    (rep_cursors (\<lambda>_. True) None (Some x) xs)) = r # rs"
      "snd r = (1, (pre @ [x]) @ (if field_end xs then [] else field_text xs)) # g"
      by blast
    then show ?thesis
      using False by simp
  qed
qed

lemma rmatch_capture:
  "\<exists>r rs. rmatch True
            (Seq (Grp 1 (Rep AnyChar 1 None False))
               (Seq field_ahead Eps))
            (p, x # xs) g = r # rs
          \<and> snd r = (1, field_text (x # xs)) # g"
proof -
  have w: "x # xs = [x] @ xs" by simp
  from lazy_scan [OF w, of g "Some x"] obtain r rs where
    *: "concat (map (\<lambda>c. if field_end (snd c)
                              then [(c, (1, take (length (x # xs) - length (snd c)) (x # xs)) # g)]
                              else [])
                    (rep_cursors (\<lambda>_. True) None (Some x) xs)) = r # rs"
    "snd r = (1, [x] @ (if field_end xs then [] else field_text xs)) # g"
    by blast
  have "rmatch True
            (Seq (Grp 1 (Rep AnyChar 1 None False))
               (Seq field_ahead Eps))
            (p, x # xs) g
        = concat (map (\<lambda>c. if field_end (snd c)
                              then [(c, (1, take (length (x # xs) - length (snd c)) (x # xs)) # g)]
                              else [])
                    (rep_cursors (\<lambda>_. True) None (Some x) xs))"
    unfolding rmatch.simps(5) [of True "Grp 1 (Rep AnyChar 1 None False)"] rmatch_ahead_eps
    by (simp add: in_cset_AnyChar_fun o_def cong: if_cong)
  then show ?thesis
    using * by simp
qed

lemma rmatch_capture_Nil:
  "rmatch True (Seq (Grp 1 (Rep AnyChar 1 None False)) r) (p, []) g = []"
  by simp

text \<open>The greedy \<open>\s*\<close> before the group: all blanks are skipped, unless only blanks
  are left, when the last of them is the field.\<close>

lemma skip_blanks:
  "rest \<noteq> [] \<Longrightarrow>
   \<exists>r rs. concat (map (\<lambda>c. rmatch True
                         (Seq (Grp 1 (Rep AnyChar 1 None False)) (Seq field_ahead Eps)) c g)
                    (rev (rep_cursors is_space None p rest))) = r # rs
          \<and> snd r = (1, if dropWhile is_space rest = [] then [last rest]
                         else field_text (dropWhile is_space rest)) # g"
proof (induction rest arbitrary: p)
  case Nil
  then show ?case by simp
next
  case (Cons x xs)
  let ?T = "Seq (Grp 1 (Rep AnyChar 1 None False)) (Seq field_ahead Eps)"
  from rmatch_capture [of p x xs g] obtain r0 rs0 where
    here: "rmatch True ?T (p, x # xs) g = r0 # rs0" "snd r0 = (1, field_text (x # xs)) # g"
    by blast
  show ?case
  proof (cases "is_space x")
    case False
    then show ?thesis
      using here by simp
  next
    case True
    show ?thesis
    proof (cases xs)
      case Nil
      have "rmatch True ?T (Some x, []) g = []"
        by (rule rmatch_capture_Nil)
      then show ?thesis
        using True Nil here by simp
    next
      case (Cons y ys)
      then have "xs \<noteq> []" by simp
      from Cons.IH [OF this, of "Some x"] obtain r rs where
        "concat (map (\<lambda>c. rmatch True ?T c g) (rev (rep_cursors is_space None (Some x) xs)))
           = r # rs"
        "snd r = (1, if dropWhile is_space xs = [] then [last xs]
                     else field_text (dropWhile is_space xs)) # g"
        by blast
      then show ?thesis
        using True \<open>xs \<noteq> []\<close> by simp
    qed
  qed
qed

lemma rmatch_after_colon:
  "rest \<noteq> [] \<Longrightarrow>
   \<exists>r rs. rmatch True
            (seqs [Rep Space 0 None True, Grp 1 (Rep AnyChar 1 None False), field_ahead])
            (p, rest) g = r # rs
          \<and> snd r = (1, if dropWhile is_space rest = [] then [last rest]
                         else field_text (dropWhile is_space rest)) # g"
proof -
  assume "rest \<noteq> []"
  from skip_blanks [OF this, of g p] obtain r rs where
    *: "concat (map (\<lambda>c. rmatch True
                         (Seq (Grp 1 (Rep AnyChar 1 None False)) (Seq field_ahead Eps)) c g)
                    (rev (rep_cursors is_space None p rest))) = r # rs"
    "snd r = (1, if dropWhile is_space rest = [] then [last rest]
                         else field_text (dropWhile is_space rest)) # g"
    by blast
  have sp: "in_cset True Space = is_space"
    by (rule ext) simp
  have "rmatch True
            (seqs [Rep Space 0 None True, Grp 1 (Rep AnyChar 1 None False), field_ahead])
            (p, rest) g
        = concat (map (\<lambda>c. rmatch True
                         (Seq (Grp 1 (Rep AnyChar 1 None False)) (Seq field_ahead Eps)) c g)
                    (rev (rep_cursors is_space None p rest)))"
    unfolding seqs_Cons seqs_Nil rmatch.simps(5) [of True "Rep Space 0 None True"]
    by (simp add: sp o_def rev_map del: rmatch.simps(5))
  then show ?thesis
    using * by simp
qed

lemma rmatch_after_colon_Nil:
  "rmatch True
     (seqs [Rep Space 0 None True, Grp 1 (Rep AnyChar 1 None False), field_ahead])
     (p, []) g = []"
  by simp

text \<open>The label: a literal prefix, compared without case.\<close>

lemma rmatch_lits_seq:
  "\<exists>p'. rmatch True (Seq (lits l) r) (p, s) g
          = (if ci_prefix l s then rmatch True r (p', drop (length l) s) g else [])"
proof (induction l arbitrary: p s)
  case Nil
  show ?case by (rule exI [of _ p]) simp
next
  case (Cons c cs)
  show ?case
  proof (cases s)
    case Nil
    then show ?thesis by simp
  next
    case (Cons x xs)
    show ?thesis
    proof (cases "lower_char x = lower_char c")
      case False
      then show ?thesis using Cons by (simp add: lit_eq_def)
    next
      case True
      from Cons.IH [of "Some x" xs] obtain p' where
        ih: "rmatch True (Seq (lits cs) r) (Some x, xs) g
              = (if ci_prefix cs xs then rmatch True r (p', drop (length cs) xs) g else [])"
        by blast
      have "rmatch True (Seq (lits (c # cs)) r) (p, s) g
              = rmatch True (Seq (lits cs) r) (Some x, xs) g"
        using True Cons by (simp add: lit_eq_def)
      then show ?thesis
        using ih True Cons by auto
    qed
  qed
qed

lemma ci_prefix_snoc:
  "ci_prefix (l @ [c]) s
     \<longleftrightarrow> ci_prefix l s \<and> (\<exists>x rest. drop (length l) s = x # rest \<and> lower_char x = lower_char c)"
proof (induction l arbitrary: s)
  case Nil
  then show ?case by (cases s) auto
next
  case (Cons a l)
  then show ?case by (cases s) auto
qed

lemma lower_colon: "lower_char x = lower_char (CHR '':'') \<longleftrightarrow> x = CHR '':''"
proof -
  have "code (CHR '':'') < 65" by (simp add: code_def)
  from lit_eq_nonletter [OF this, of True x] show ?thesis
    by (simp add: lit_eq_def)
qed

lemma rmatch_colon_seq:
  "rmatch True (Seq (Lit (CHR '':'')) r) (p, s) g
     = (case s of [] \<Rightarrow> [] | x # xs \<Rightarrow> if x = CHR '':'' then rmatch True r (Some x, xs) g else [])"
  by (simp add: lit_eq_def lower_colon split: list.splits)

lemma field_pattern_unfold:
  "field_pattern name
     = Seq (lits name) (Seq (Lit (CHR '':''))
         (seqs [Rep Space 0 None True, Grp 1 (Rep AnyChar 1 None False), field_ahead]))"
  by (simp add: field_pattern_def)

lemma field_pattern_no_match:
  assumes "\<not> (ci_prefix (name @ '':'') s \<and> drop (length (name @ '':'')) s \<noteq> [])"
  shows "rmatch True (field_pattern name) (p, s) g = []"
proof -
  from rmatch_lits_seq [of name _ p s g] obtain p' where
    1: "rmatch True (field_pattern name) (p, s) g
          = (if ci_prefix name s
             then rmatch True (Seq (Lit (CHR '':''))
                    (seqs [Rep Space 0 None True, Grp 1 (Rep AnyChar 1 None False), field_ahead]))
                    (p', drop (length name) s) g
             else [])"
    unfolding field_pattern_unfold by blast
  show ?thesis
  proof (cases "ci_prefix (name @ '':'') s")
    case False
    then show ?thesis
      unfolding 1 rmatch_colon_seq
      by (auto simp: ci_prefix_snoc lower_colon split: list.splits simp del: seqs_Cons)
  next
    case True
    then obtain rest where d: "ci_prefix name s" "drop (length name) s = CHR '':'' # rest"
      by (auto simp: ci_prefix_snoc lower_colon)
    have "drop (length (name @ '':'')) s = drop 1 (drop (length name) s)"
      by simp
    then have "rest = []"
      using assms True d by simp
    then show ?thesis
      unfolding 1 rmatch_colon_seq d using d(1) rmatch_after_colon_Nil by simp
  qed
qed

lemma field_pattern_match:
  assumes "ci_prefix (name @ '':'') s" and "drop (length (name @ '':'')) s = rest"
    and "rest \<noteq> []"
  shows "\<exists>r rs. rmatch True (field_pattern name) (p, s) g = r # rs
           \<and> snd r = (1, if dropWhile is_space rest = [] then [last rest]
                          else field_text (dropWhile is_space rest)) # g"
proof -
  from rmatch_lits_seq [of name _ p s g] obtain p' where
    1: "rmatch True (field_pattern name) (p, s) g
          = (if ci_prefix name s
             then rmatch True (Seq (Lit (CHR '':''))
                    (seqs [Rep Space 0 None True, Grp 1 (Rep AnyChar 1 None False), field_ahead]))
                    (p', drop (length name) s) g
             else [])"
    unfolding field_pattern_unfold by blast
  from assms(1) obtain rest' where
    d: "ci_prefix name s" "drop (length name) s = CHR '':'' # rest'"
    by (auto simp: ci_prefix_snoc lower_colon)
  have "drop (length (name @ '':'')) s = drop 1 (drop (length name) s)"
    by simp
  then have r: "rest' = rest"
    using assms(2) d by simp
  have "rmatch True (field_pattern name) (p, s) g
          = rmatch True (seqs [Rep Space 0 None True, Grp 1 (Rep AnyChar 1 None False), field_ahead])
              (Some (CHR '':''), rest) g"
    unfolding 1 rmatch_colon_seq d r using d(1) by simp
  then show ?thesis
    using rmatch_after_colon [OF assms(3), of "Some (CHR '':'')" g] by simp
qed

lemma search_field:
  "map_option m_groups (search_from True (field_pattern name) p s)
     = map_option (\<lambda>rest. [(1, if dropWhile is_space rest = [] then [last rest]
                                else field_text (dropWhile is_space rest))])
         (after_label (name @ '':'') s)"
proof (induction s arbitrary: p)
  case Nil
  have "rmatch True (field_pattern name) (p, []) [] = []"
    by (rule field_pattern_no_match) simp
  then show ?case by simp
next
  case (Cons x xs)
  show ?case
  proof (cases "ci_prefix (name @ '':'') (x # xs) \<and> drop (length (name @ '':'')) (x # xs) \<noteq> []")
    case True
    from field_pattern_match [of name "x # xs" _ p "[]"] True obtain r rs where
      "rmatch True (field_pattern name) (p, x # xs) [] = r # rs"
      "snd r = [(1, if dropWhile is_space (drop (length (name @ '':'')) (x # xs)) = []
                    then [last (drop (length (name @ '':'')) (x # xs))]
                    else field_text (dropWhile is_space (drop (length (name @ '':'')) (x # xs))))]"
      by blast
    then show ?thesis
      using True by simp
  next
    case False
    from field_pattern_no_match [OF this]
    have "rmatch True (field_pattern name) (p, x # xs) [] = []" .
    then show ?thesis
      using False Cons.IH [of "Some x"] by auto
  qed
qed

lemma after_label_nonempty: "after_label l s = Some rest \<Longrightarrow> rest \<noteq> []"
  by (induction s) (auto split: if_splits)

lemma strip_one_blank: "is_space c \<Longrightarrow> strip [c] = []"
  by (simp add: strip_def)

lemma extract_field_reply_field:
  "extract_field reply name = Inr (reply_field name reply)"
proof (cases "after_label (name @ '':'') reply")
  case None
  then have "search_from True (field_pattern name) None reply = None"
    using search_field [of name None reply] by simp
  then show ?thesis
    using None by (simp add: extract_field_def re_search_def reply_field_def)
next
  case (Some rest)
  let ?cap = "if dropWhile is_space rest = [] then [last rest]
              else field_text (dropWhile is_space rest)"
  from Some obtain m where
    m: "search_from True (field_pattern name) None reply = Some m"
      "m_groups m = [(1, ?cap)]"
    using search_field [of name None reply] by auto
  have ex: "extract_field reply name = Inr (strip ?cap)"
    using m by (simp add: extract_field_def re_search_def group_strip_def group_def)
  have ne: "rest \<noteq> []"
    using Some by (rule after_label_nonempty)
  have "strip ?cap = (let v = dropWhile is_space rest in if v = [] then [] else strip (field_text v))"
  proof (cases "dropWhile is_space rest = []")
    case True
    then have "is_space (last rest)"
      using ne by (simp add: dropWhile_eq_Nil_conv)
    then show ?thesis using True by (simp add: strip_one_blank)
  next
    case False
    then show ?thesis unfolding Let_def by (simp only: if_False)
  qed
  then show ?thesis
    using ex Some by (simp add: reply_field_def)
qed

lemma ci_prefix_lower: "ci_prefix l s \<Longrightarrow> prefix (lower l) (lower s)"
  by (induction l s rule: ci_prefix.induct) (auto simp: lower_def)

lemma after_label_sublist:
  "after_label l s = Some rest \<Longrightarrow> sublist (lower l) (lower s)"
proof (induction s)
  case Nil
  then show ?case by simp
next
  case (Cons x xs)
  show ?case
  proof (cases "ci_prefix l (x # xs) \<and> drop (length l) (x # xs) \<noteq> []")
    case True
    then have "prefix (lower l) (lower (x # xs))"
      by (simp add: ci_prefix_lower)
    then show ?thesis by (rule prefix_imp_sublist)
  next
    case False
    then have "after_label l xs = Some rest"
      using Cons.prems by auto
    then have "sublist (lower l) (lower xs)"
      by (rule Cons.IH)
    then show ?thesis
      by (simp add: lower_def sublist_Cons_right)
  qed
qed

lemma reply_field_absent:
  "\<not> sublist (lower (name @ '':'')) (lower reply) \<Longrightarrow> reply_field name reply = ''Not specified''"
  using after_label_sublist [of "name @ '':''" reply]
  by (cases "after_label (name @ '':'') reply") (auto simp: reply_field_def)

lemma parse_analysis_response_fields:
  "parse_analysis_response reply cd =
     Inr \<lparr>r_case_name = get_or (case_name cd) ''Unknown'',
          r_pdf_filename = get_or (pdf_filename cd) ''Unknown'',
          classification = reply_field ''CLASSIFICATION'' reply,
          notice_sent = reply_field ''NOTICE SENT'' reply,
          firm_fault = reply_field ''FIRM FAULT'' reply,
          firm_fault_explanation = reply_field ''FIRM FAULT EXPLANATION'' reply,
          current_status = reply_field ''CURRENT STATUS'' reply,
          recommendation = reply_field ''RECOMMENDATION'' reply,
          reasoning = reply_field ''REASONING'' reply,
          key_evidence = reply_field ''KEY EVIDENCE'' reply,
          full_analysis = reply\<rparr>"
  by (simp add: parse_analysis_response_def extract_field_reply_field try_bind_def)

text \<open>
  C9. The code at the failing input, a reply whose notice field is empty and whose
  reasoning runs over two lines. The parser returns a result, but the notice field is
  the whole next line, label included (the \<open>\s*\<close> after the colon runs over the end of
  the line), and the reasoning stops at the end of its first line (the look-ahead
  \<open>\n[A-Z\s]+:\<close>, under \<open>re.IGNORECASE\<close>, takes the second line and the label
  after it for one label). Neither is the text after the label up to the next field
  label.
\<close>

theorem reply_field_takes_next_label:
  "parse_analysis_response
     ''CLASSIFICATION: Special\<newline>NOTICE SENT:\<newline>FIRM FAULT: Yes\<newline>REASONING: The client yelled\<newline>and cursed at staff\<newline>KEY EVIDENCE: x''
     (plain_case ''Doe'')
   = Inr \<lparr>r_case_name = ''Doe'', r_pdf_filename = ''Doe.pdf'',
          classification = ''Special'',
          notice_sent = ''FIRM FAULT: Yes'',
          firm_fault = ''Yes'',
          firm_fault_explanation = ''Not specified'',
          current_status = ''Not specified'',
          recommendation = ''Not specified'',
          reasoning = ''The client yelled'',
          key_evidence = ''x'',
          full_analysis = ''CLASSIFICATION: Special\<newline>NOTICE SENT:\<newline>FIRM FAULT: Yes\<newline>REASONING: The client yelled\<newline>and cursed at staff\<newline>KEY EVIDENCE: x''\<rparr>"
proof -
  let ?r = "''CLASSIFICATION: Special\<newline>NOTICE SENT:\<newline>FIRM FAULT: Yes\<newline>REASONING: The client yelled\<newline>and cursed at staff\<newline>KEY EVIDENCE: x''"
  have f: "reply_field ''CLASSIFICATION'' ?r = ''Special''"
    "reply_field ''NOTICE SENT'' ?r = ''FIRM FAULT: Yes''"
    "reply_field ''FIRM FAULT'' ?r = ''Yes''"
    "reply_field ''FIRM FAULT EXPLANATION'' ?r = ''Not specified''"
    "reply_field ''CURRENT STATUS'' ?r = ''Not specified''"
    "reply_field ''RECOMMENDATION'' ?r = ''Not specified''"
    "reply_field ''REASONING'' ?r = ''The client yelled''"
    "reply_field ''KEY EVIDENCE'' ?r = ''x''"
    by code_simp+
  have n: "get_or (case_name (plain_case ''Doe'')) ''Unknown'' = ''Doe''"
    "get_or (pdf_filename (plain_case ''Doe'')) ''Unknown'' = ''Doe.pdf''"
    by (simp_all add: plain_case_def get_or_def)
  show ?thesis
    unfolding parse_analysis_response_fields f n by simp
qed

section \<open>Properties of the segmenter\<close>















































section \<open>Properties of \<open>batch_analyze\<close>\<close>

lemma try_analyze_Inr:
  "try_analyze out self i tot cd = Inr r \<longleftrightarrow>
     try_body out self i tot cd = Inr r
     \<or> (\<exists>e. try_body out self i tot cd = Inl e \<and> py_print out (error_line e) = None
            \<and> r = error_result cd e)"
  by (auto simp: try_analyze_def split: sum.splits option.splits)

lemma try_analyze_total:
  assumes "\<forall>e. try_body out self i tot cd = Inl e \<longrightarrow> py_print out (error_line e) = None"
  shows "\<exists>r. try_analyze out self i tot cd = Inr r"
  using assms by (cases "try_body out self i tot cd") (auto simp: try_analyze_def)

lemma try_body_Inr:
  "try_body out self i tot cd = Inr r \<longleftrightarrow>
     py_print out (analyzing_line i tot cd) = None \<and> analyze_client self i cd = Inr r"
  by (auto simp: try_body_def split: option.splits)

lemma batch_loop_returns:
  "(\<forall>j. i \<le> j \<and> j < i + length cs \<longrightarrow> call_progress cb j tot = None) \<Longrightarrow>
   (\<forall>k<length cs. \<exists>r. try_analyze out self (i + k) tot (cs ! k) = Inr r) \<Longrightarrow>
   \<exists>rs. batch_loop out self cb tot i cs results = Inr (results @ rs)
        \<and> length rs = length cs
        \<and> (\<forall>k<length cs. try_analyze out self (i + k) tot (cs ! k) = Inr (rs ! k))"
proof (induction cs arbitrary: i results)
  case Nil
  then show ?case by simp
next
  case (Cons c cs)
  have here: "call_progress cb i tot = None"
    using Cons.prems(1) by simp
  from Cons.prems(2) obtain r where r: "try_analyze out self i tot c = Inr r"
    by fastforce
  have later: "\<forall>j. i + 1 \<le> j \<and> j < (i + 1) + length cs \<longrightarrow> call_progress cb j tot = None"
    using Cons.prems(1) by simp
  have later': "\<forall>k<length cs. \<exists>r. try_analyze out self (i + 1 + k) tot (cs ! k) = Inr r"
  proof (intro allI impI)
    fix k assume "k < length cs"
    then have "\<exists>r. try_analyze out self (i + Suc k) tot ((c # cs) ! Suc k) = Inr r"
      using Cons.prems(2) by (metis Suc_less_eq length_Cons)
    then show "\<exists>r. try_analyze out self (i + 1 + k) tot (cs ! k) = Inr r"
      by simp
  qed
  from Cons.IH [OF later later', of "results @ [r]"]
  obtain rs where rs:
    "batch_loop out self cb tot (i + 1) cs (results @ [r]) = Inr ((results @ [r]) @ rs)"
    "length rs = length cs"
    "\<forall>k<length cs. try_analyze out self (i + 1 + k) tot (cs ! k) = Inr (rs ! k)"
    by blast
  have nth: "try_analyze out self (i + k) tot ((c # cs) ! k) = Inr ((r # rs) ! k)"
    if "k < length (c # cs)" for k
    using that rs(3) r by (cases k) simp_all
  show ?case
  proof (intro exI conjI allI impI)
    show "batch_loop out self cb tot i (c # cs) results = Inr (results @ r # rs)"
      using here r rs(1) by simp
    show "length (r # rs) = length (c # cs)"
      using rs(2) by simp
    show "try_analyze out self (i + k) tot ((c # cs) ! k) = Inr ((r # rs) ! k)"
      if "k < length (c # cs)" for k
      using that by (rule nth)
  qed
qed

lemma batch_loop_stops:
  "i0 \<le> i \<Longrightarrow> i < i0 + length cs \<Longrightarrow> call_progress cb i tot = Some e \<Longrightarrow>
   \<exists>e'. batch_loop out self cb tot i0 cs results = Inl e'"
proof (induction cs arbitrary: i0 results)
  case Nil
  then show ?case by simp
next
  case (Cons c cs)
  show ?case
  proof (cases "i0 = i")
    case True
    then show ?thesis using Cons.prems by simp
  next
    case False
    then have lt: "i0 < i" using Cons.prems by simp
    have later: "\<exists>e'. batch_loop out self cb tot (i0 + 1) cs rs = Inl e'" for rs
      using Cons.prems lt by (intro Cons.IH) auto
    show ?thesis
      using later by (auto split: option.splits sum.splits)
  qed
qed

lemma batch_loop_raises:
  "i0 \<le> i \<Longrightarrow> i < i0 + length cs \<Longrightarrow> call_progress cb i tot = Some e \<Longrightarrow>
   (\<forall>j. i0 \<le> j \<and> j < i \<longrightarrow> call_progress cb j tot = None) \<Longrightarrow>
   (\<forall>j. i0 \<le> j \<and> j < i \<longrightarrow> (\<exists>r. try_analyze out self j tot (cs ! (j - i0)) = Inr r)) \<Longrightarrow>
   batch_loop out self cb tot i0 cs results = Inl e"
proof (induction cs arbitrary: i0 results)
  case Nil
  then show ?case by simp
next
  case (Cons c cs)
  show ?case
  proof (cases "i0 = i")
    case True
    then show ?thesis using Cons.prems by simp
  next
    case False
    then have lt: "i0 < i" using Cons.prems by simp
    then have here: "call_progress cb i0 tot = None" using Cons.prems by simp
    from Cons.prems(5) lt obtain r where r: "try_analyze out self i0 tot c = Inr r"
      by fastforce
    have later: "\<forall>j. i0 + 1 \<le> j \<and> j < i
                  \<longrightarrow> (\<exists>r. try_analyze out self j tot (cs ! (j - (i0 + 1))) = Inr r)"
    proof (intro allI impI)
      fix j assume j: "i0 + 1 \<le> j \<and> j < i"
      then have "i0 \<le> j \<and> j < i"
        by simp
      with Cons.prems(5) obtain r where
        "try_analyze out self j tot ((c # cs) ! (j - i0)) = Inr r"
        by blast
      moreover have "j - i0 = Suc (j - (i0 + 1))"
        using j by arith
      ultimately have "try_analyze out self j tot (cs ! (j - (i0 + 1))) = Inr r"
        by simp
      then show "\<exists>r. try_analyze out self j tot (cs ! (j - (i0 + 1))) = Inr r"
        by blast
    qed
    have "batch_loop out self cb tot (i0 + 1) cs (results @ [r]) = Inl e"
      using Cons.prems lt later by (intro Cons.IH) auto
    then show ?thesis using here r by simp
  qed
qed

lemma try_bind_Inr:
  "try_bind x f = Inr r \<Longrightarrow> \<exists>v. x = Inr v \<and> f v = Inr r"
  by (cases x) (simp_all add: try_bind_def)

lemma parse_analysis_response_names:
  assumes "parse_analysis_response t cd = Inr r"
  shows "r_case_name r = get_or (case_name cd) ''Unknown''
         \<and> r_pdf_filename r = get_or (pdf_filename cd) ''Unknown''"
  using assms unfolding parse_analysis_response_def
  by (auto dest!: try_bind_Inr)

lemma analyze_client_names:
  assumes "analyze_client self n cd = Inr r"
  shows "r_case_name r = get_or (case_name cd) ''Unknown''
         \<and> r_pdf_filename r = get_or (pdf_filename cd) ''Unknown''"
proof -
  from assms have "\<exists>t. parse_analysis_response t cd = Inr r"
    by (auto simp: analyze_client_def split: sum.splits list.splits)
  then show ?thesis
    using parse_analysis_response_names by blast
qed

lemma py_print_utf8 [simp]: "py_print utf8_stdout text = None"
  by (simp add: py_print_def utf8_stdout_def)

text \<open>
  C4 (as the code has it). For every list of cases, whatever the service does on each
  call (also when the analysis of some case raises), if the progress callback, when one
  is passed, returns at every case, and the error line of every case whose \<open>try\<close>
  body raised is written to standard output, then \<open>batch_analyze\<close> returns a list of
  the same length in which the \<open>k\<close>-th entry belongs to the \<open>k\<close>-th case and to no
  other: it carries that case's name and file name, and it is either the result
  \<open>analyze_client\<close> returned for that case, or the error result, with the
  classification "Error during analysis", the recommendation "Manual review required"
  and the message of the exception that the \<open>try\<close> body of that case raised. The
  entry of a case depends on that case and its own call only.
\<close>

theorem batch_analyze_one_result_per_case:
  assumes "\<forall>i. 1 \<le> i \<and> i \<le> length cases \<longrightarrow> call_progress cb i (length cases) = None"
    and "\<forall>k e. k < length cases
            \<and> try_body out self (Suc k) (length cases) (cases ! k) = Inl e
          \<longrightarrow> py_print out (error_line e) = None"
  shows "\<exists>results. batch_analyze out self cases cb = Inr results
           \<and> length results = length cases
           \<and> (\<forall>k<length cases.
                 r_case_name (results ! k) = get_or (case_name (cases ! k)) ''Unknown''
                 \<and> r_pdf_filename (results ! k) = get_or (pdf_filename (cases ! k)) ''Unknown''
                 \<and> ((try_body out self (Suc k) (length cases) (cases ! k) = Inr (results ! k)
                      \<and> analyze_client self (Suc k) (cases ! k) = Inr (results ! k))
                    \<or> (\<exists>e. try_body out self (Suc k) (length cases) (cases ! k) = Inl e
                           \<and> results ! k =
                               \<lparr>r_case_name = get_or (case_name (cases ! k)) ''Unknown'',
                                r_pdf_filename = get_or (pdf_filename (cases ! k)) ''Unknown'',
                                classification = ''Error during analysis'',
                                notice_sent = ''N/A'',
                                firm_fault = ''N/A'',
                                firm_fault_explanation = ''Error: '' @ str_exn e,
                                current_status = ''Error'',
                                recommendation = ''Manual review required'',
                                reasoning = ''Automated analysis failed'',
                                key_evidence = ''N/A'',
                                full_analysis = ''Error: '' @ str_exn e\<rparr>)))"
proof -
  let ?n = "length cases"
  have cb: "\<forall>j. 1 \<le> j \<and> j < 1 + ?n \<longrightarrow> call_progress cb j ?n = None"
    using assms(1) by simp
  have pr: "\<forall>k<?n. \<exists>r. try_analyze out self (1 + k) ?n (cases ! k) = Inr r"
  proof (intro allI impI)
    fix k assume k: "k < ?n"
    have "\<forall>e. try_body out self (Suc k) ?n (cases ! k) = Inl e
             \<longrightarrow> py_print out (error_line e) = None"
      using assms(2) k by blast
    from try_analyze_total [OF this]
    show "\<exists>r. try_analyze out self (1 + k) ?n (cases ! k) = Inr r"
      by simp
  qed
  from batch_loop_returns [OF cb pr, of "[]"]
  obtain rs where rs: "batch_analyze out self cases cb = Inr rs" "length rs = ?n"
    and each: "\<And>k. k < ?n \<Longrightarrow> try_analyze out self (Suc k) ?n (cases ! k) = Inr (rs ! k)"
    by (auto simp: batch_analyze_def)
  show ?thesis
  proof (intro exI conjI allI impI)
    show "batch_analyze out self cases cb = Inr rs" by (rule rs(1))
    show "length rs = ?n" by (rule rs(2))
  next
    fix k assume k: "k < ?n"
    from each [OF k] consider
      (ok) "try_body out self (Suc k) ?n (cases ! k) = Inr (rs ! k)"
      | (err) e where "try_body out self (Suc k) ?n (cases ! k) = Inl e"
          "rs ! k = error_result (cases ! k) e"
      unfolding try_analyze_Inr by blast
    then have
      "r_case_name (rs ! k) = get_or (case_name (cases ! k)) ''Unknown''
       \<and> r_pdf_filename (rs ! k) = get_or (pdf_filename (cases ! k)) ''Unknown''
       \<and> ((try_body out self (Suc k) ?n (cases ! k) = Inr (rs ! k)
            \<and> analyze_client self (Suc k) (cases ! k) = Inr (rs ! k))
          \<or> (\<exists>e. try_body out self (Suc k) ?n (cases ! k) = Inl e
                 \<and> rs ! k =
                     \<lparr>r_case_name = get_or (case_name (cases ! k)) ''Unknown'',
                      r_pdf_filename = get_or (pdf_filename (cases ! k)) ''Unknown'',
                      classification = ''Error during analysis'',
                      notice_sent = ''N/A'',
                      firm_fault = ''N/A'',
                      firm_fault_explanation = ''Error: '' @ str_exn e,
                      current_status = ''Error'',
                      recommendation = ''Manual review required'',
                      reasoning = ''Automated analysis failed'',
                      key_evidence = ''N/A'',
                      full_analysis = ''Error: '' @ str_exn e\<rparr>))"
    proof cases
      case ok
      then have a: "analyze_client self (Suc k) (cases ! k) = Inr (rs ! k)"
        by (simp add: try_body_Inr)
      show ?thesis
        using ok a analyze_client_names [OF a] by simp
    next
      case err
      then show ?thesis
        by (simp add: error_result_def)
    qed
    then show "r_case_name (rs ! k) = get_or (case_name (cases ! k)) ''Unknown''"
      and "r_pdf_filename (rs ! k) = get_or (pdf_filename (cases ! k)) ''Unknown''"
      and "(try_body out self (Suc k) ?n (cases ! k) = Inr (rs ! k)
            \<and> analyze_client self (Suc k) (cases ! k) = Inr (rs ! k))
          \<or> (\<exists>e. try_body out self (Suc k) ?n (cases ! k) = Inl e
                 \<and> rs ! k =
                     \<lparr>r_case_name = get_or (case_name (cases ! k)) ''Unknown'',
                      r_pdf_filename = get_or (pdf_filename (cases ! k)) ''Unknown'',
                      classification = ''Error during analysis'',
                      notice_sent = ''N/A'',
                      firm_fault = ''N/A'',
                      firm_fault_explanation = ''Error: '' @ str_exn e,
                      current_status = ''Error'',
                      recommendation = ''Manual review required'',
                      reasoning = ''Automated analysis failed'',
                      key_evidence = ''N/A'',
                      full_analysis = ''Error: '' @ str_exn e\<rparr>)"
      by blast+
  qed
qed

lemma flaky_reply:
  "reply_field ''CLASSIFICATION''
     ''CLASSIFICATION: Normal\<newline>RECOMMENDATION: Continue representation'' = ''Normal''"
  "reply_field ''FIRM FAULT EXPLANATION''
     ''CLASSIFICATION: Normal\<newline>RECOMMENDATION: Continue representation'' = ''Not specified''"
  by code_simp+

lemma flaky_batch:
  "(case batch_analyze utf8_stdout flaky_classifier three_cases quiet_callback of
      Inr rs \<Rightarrow> map (\<lambda>r. (r_case_name r, classification r, firm_fault_explanation r)) rs
    | Inl e \<Rightarrow> [])
   = [(''Doe'', ''Normal'', ''Not specified''),
      (''Roe'', ''Error during analysis'', ''Error: overloaded''),
      (''Poe'', ''Normal'', ''Not specified'')]"
  by (simp add: batch_analyze_def three_cases_def call_progress_def quiet_callback_def
        try_analyze_def try_body_def analyze_client_def flaky_classifier_def
        parse_analysis_response_fields flaky_reply error_result_def plain_case_def get_or_def)

theorem batch_analyze_one_result_per_case_witness:
  "call_progress quiet_callback 1 3 = None
   \<and> call_progress quiet_callback 2 3 = None
   \<and> call_progress quiet_callback 3 3 = None
   \<and> try_body utf8_stdout flaky_classifier 2 3 (plain_case ''Roe'') = Inl (APIError ''overloaded'')
   \<and> py_print utf8_stdout (error_line (APIError ''overloaded'')) = None
   \<and> (\<exists>results. batch_analyze utf8_stdout flaky_classifier three_cases quiet_callback
                    = Inr results
         \<and> length results = 3
         \<and> map r_case_name results = [''Doe'', ''Roe'', ''Poe'']
         \<and> map classification results = [''Normal'', ''Error during analysis'', ''Normal'']
         \<and> firm_fault_explanation (results ! 1) = ''Error: overloaded'')"
proof -
  have cb: "\<forall>i. 1 \<le> i \<and> i \<le> length three_cases
              \<longrightarrow> call_progress quiet_callback i (length three_cases) = None"
    by (simp add: call_progress_def quiet_callback_def)
  have pr: "\<forall>k e. k < length three_cases
              \<and> try_body utf8_stdout flaky_classifier (Suc k) (length three_cases)
                   (three_cases ! k) = Inl e
            \<longrightarrow> py_print utf8_stdout (error_line e) = None"
    by simp
  have roe: "try_body utf8_stdout flaky_classifier 2 3 (plain_case ''Roe'')
               = Inl (APIError ''overloaded'')"
    by (simp add: try_body_def analyze_client_def flaky_classifier_def)
  from batch_analyze_one_result_per_case [OF cb pr]
  obtain results where r: "batch_analyze utf8_stdout flaky_classifier three_cases quiet_callback
                             = Inr results"
    by blast
  from flaky_batch have m: "map (\<lambda>r. (r_case_name r, classification r, firm_fault_explanation r)) results
      = [(''Doe'', ''Normal'', ''Not specified''),
         (''Roe'', ''Error during analysis'', ''Error: overloaded''),
         (''Poe'', ''Normal'', ''Not specified'')]"
    unfolding r by simp
  then obtain a b c where abc: "results = [a, b, c]"
    by (auto simp: map_eq_Cons_conv)
  show ?thesis
    using r m roe unfolding abc by (simp add: call_progress_def quiet_callback_def)
qed

text \<open>
  C4 as the spec states it fails, in two ways. The progress callback is an argument of
  \<open>batch_analyze\<close> and is called outside the \<open>try\<close> statement: when it raises at the
  second of three cases, no list is returned. And the error line of the handler holds
  the character U+274C: on a standard output with the \<open>ascii\<close> codec the handler of a
  case whose service call failed raises \<open>UnicodeEncodeError\<close>, and no list is
  returned for the single case either.
\<close>

theorem batch_analyze_no_list_counterexample:
  "batch_analyze utf8_stdout flaky_classifier three_cases raising_callback
     = Inl (ValueError ''progress display failed'')
   \<and> analyze_client failing_classifier 1 suing_case = Inl (APIError ''overloaded'')
   \<and> batch_analyze ascii_stdout failing_classifier [suing_case] None
       = Inl (UnicodeEncodeError
           (CHR 0x27 # ''ascii'' @ [CHR 0x27] @ '' codec can'' @ [CHR 0x27]
            @ ''t encode character '' @ [CHR 0x27, CHR 0x5C] @ ''u274c'' @ [CHR 0x27]
            @ '' in position 2: ordinal not in range(128)''))"
proof -
  have 0: "batch_analyze utf8_stdout flaky_classifier three_cases raising_callback
             = Inl (ValueError ''progress display failed'')"
    by (simp add: batch_analyze_def three_cases_def call_progress_def raising_callback_def
          try_analyze_def try_body_def split: sum.splits)
  have 1: "py_print ascii_stdout (analyzing_line (Suc 0) (Suc 0) suing_case) = None"
    by (simp add: py_print_def analyzing_line_def ascii_stdout_def suing_case_def get_or_def
          code_def str_nat.simps digit_char_def)
  have 2: "analyze_client failing_classifier (Suc 0) suing_case = Inl (APIError ''overloaded'')"
    by (simp add: analyze_client_def failing_classifier_def)
  have 3: "py_print ascii_stdout (error_line (APIError ''overloaded''))
       = Some (UnicodeEncodeError
           (CHR 0x27 # ''ascii'' @ [CHR 0x27] @ '' codec can'' @ [CHR 0x27]
            @ ''t encode character '' @ [CHR 0x27, CHR 0x5C] @ ''u274c'' @ [CHR 0x27]
            @ '' in position 2: ordinal not in range(128)''))"
    by (simp add: py_print_def error_line_def ascii_stdout_def escaped_def digit_char_def
          str_nat.simps code_def)
  have "batch_analyze ascii_stdout failing_classifier [suing_case] None
       = Inl (UnicodeEncodeError
           (CHR 0x27 # ''ascii'' @ [CHR 0x27] @ '' codec can'' @ [CHR 0x27]
            @ ''t encode character '' @ [CHR 0x27, CHR 0x5C] @ ''u274c'' @ [CHR 0x27]
            @ '' in position 2: ordinal not in range(128)''))"
    by (simp add: batch_analyze_def call_progress_def try_analyze_def try_body_def 1 2 3)
  then show ?thesis
    using 0 2 by simp
qed

text \<open>
  C10. The progress callback is called outside the \<open>try\<close> statement: when it raises
  at some case (and returned at the cases before), \<open>batch_analyze\<close> returns no list,
  whatever the standard output does, so the results of the cases already analysed are
  lost; and the exception that leaves \<open>batch_analyze\<close> is the callback's, unless the
  handler of an earlier case has already raised while printing its error line.
\<close>

theorem progress_callback_exception_leaves_batch:
  assumes "1 \<le> i" and "i \<le> length cases"
    and "call_progress cb i (length cases) = Some e"
    and "\<forall>j. 1 \<le> j \<and> j < i \<longrightarrow> call_progress cb j (length cases) = None"
  shows "(\<exists>e'. batch_analyze out self cases cb = Inl e')
         \<and> ((\<forall>j e0. 1 \<le> j \<and> j < i
                  \<and> try_body out self j (length cases) (cases ! (j - 1)) = Inl e0
                \<longrightarrow> py_print out (error_line e0) = None)
            \<longrightarrow> batch_analyze out self cases cb = Inl e)"
proof (intro conjI impI)
  show "\<exists>e'. batch_analyze out self cases cb = Inl e'"
    unfolding batch_analyze_def
    using assms(1,2,3) by (intro batch_loop_stops [where i = i]) auto
next
  assume pr: "\<forall>j e0. 1 \<le> j \<and> j < i
                \<and> try_body out self j (length cases) (cases ! (j - 1)) = Inl e0
              \<longrightarrow> py_print out (error_line e0) = None"
  have "\<forall>j. 1 \<le> j \<and> j < i
          \<longrightarrow> (\<exists>r. try_analyze out self j (length cases) (cases ! (j - 1)) = Inr r)"
  proof (intro allI impI)
    fix j assume j: "1 \<le> j \<and> j < i"
    have "\<forall>e0. try_body out self j (length cases) (cases ! (j - 1)) = Inl e0
            \<longrightarrow> py_print out (error_line e0) = None"
      using pr j by blast
    from try_analyze_total [OF this]
    show "\<exists>r. try_analyze out self j (length cases) (cases ! (j - 1)) = Inr r" .
  qed
  then show "batch_analyze out self cases cb = Inl e"
    unfolding batch_analyze_def
    using assms by (intro batch_loop_raises [where i = i]) auto
qed

theorem progress_callback_exception_leaves_batch_witness:
  "(1::nat) \<le> 2 \<and> 2 \<le> length three_cases
   \<and> call_progress raising_callback 2 (length three_cases)
       = Some (ValueError ''progress display failed'')
   \<and> call_progress raising_callback 1 (length three_cases) = None
   \<and> (\<exists>r. try_analyze utf8_stdout flaky_classifier 1 (length three_cases) (three_cases ! 0)
              = Inr r)
   \<and> batch_analyze utf8_stdout flaky_classifier three_cases raising_callback
       = Inl (ValueError ''progress display failed'')"
proof -
  have a: "(1::nat) \<le> 2" by simp
  have b: "2 \<le> length three_cases" by (simp add: three_cases_def)
  have c: "call_progress raising_callback 2 (length three_cases)
             = Some (ValueError ''progress display failed'')"
    by (simp add: call_progress_def raising_callback_def)
  have d: "\<forall>j. 1 \<le> j \<and> j < 2
             \<longrightarrow> call_progress raising_callback j (length three_cases) = None"
    by (simp add: call_progress_def raising_callback_def)
  have p: "\<forall>j e0. 1 \<le> j \<and> j < 2
             \<and> try_body utf8_stdout flaky_classifier j (length three_cases)
                  (three_cases ! (j - 1)) = Inl e0
           \<longrightarrow> py_print utf8_stdout (error_line e0) = None"
    by simp
  have t: "\<exists>r. try_analyze utf8_stdout flaky_classifier 1 (length three_cases)
                  (three_cases ! 0) = Inr r"
    by (rule try_analyze_total) simp
  from progress_callback_exception_leaves_batch
         [OF a b c d, of utf8_stdout flaky_classifier] p
  have "batch_analyze utf8_stdout flaky_classifier three_cases raising_callback
          = Inl (ValueError ''progress display failed'')"
    by blast
  then show ?thesis
    using b c t by (simp add: call_progress_def raising_callback_def)
qed

text \<open>
  C1. The code at the failing input: the service call of \<open>suing_case\<close> raises and the
  text of its event holds the Excessively-Special indicators \<open>threats_lawsuit\<close> and
  \<open>threats_bar\<close> (what the patterns of the rule engine find when \<open>re\<close> is bound), but
  \<open>analyze_client\<close> returns no result and \<open>batch_analyze\<close> records the error
  result, with the classification "Error during analysis" and the recommendation
  "Manual review required". No path of the module calls the rule engine, which its
  docstring calls a fallback to the analysis by the service.
\<close>

theorem oracle_failure_no_fallback:
  "match_indicators (''re'' # module_globals) e_special_indicators
     (lower ''I will sue you and report you to the State Bar'') []
     = Inr [''threats_lawsuit'', ''threats_bar'']
   \<and> map ev_raw_text (get_or (timeline_events suing_case) [])
       = [''I will sue you and report you to the State Bar'']
   \<and> analyze_client failing_classifier 1 suing_case = Inl (APIError ''overloaded'')
   \<and> batch_analyze utf8_stdout failing_classifier [suing_case] None
       = Inr [\<lparr>r_case_name = ''Doe'', r_pdf_filename = ''doe.pdf'',
               classification = ''Error during analysis'',
               notice_sent = ''N/A'',
               firm_fault = ''N/A'',
               firm_fault_explanation = ''Error: overloaded'',
               current_status = ''Error'',
               recommendation = ''Manual review required'',
               reasoning = ''Automated analysis failed'',
               key_evidence = ''N/A'',
               full_analysis = ''Error: overloaded''\<rparr>]"
proof -
  have tags: "match_indicators (''re'' # module_globals) e_special_indicators
     (lower ''I will sue you and report you to the State Bar'') []
     = Inr [''threats_lawsuit'', ''threats_bar'']"
    by code_simp
  have raised: "analyze_client failing_classifier 1 suing_case = Inl (APIError ''overloaded'')"
    by (simp add: analyze_client_def failing_classifier_def)
  have batch: "batch_analyze utf8_stdout failing_classifier [suing_case] None
                = Inr [error_result suing_case (APIError ''overloaded'')]"
    using raised
    by (simp add: batch_analyze_def call_progress_def try_analyze_def try_body_def)
  show ?thesis
    using tags raised batch
    by (simp add: error_result_def suing_case_def get_or_def)
qed

end
